theory Spec2Isabelle
  imports Complex_Main "HOL-Library.Sublist"
begin

section \<open>The links table and the statements the server sends to it\<close>

text \<open>
  The server (src/src/server.js) keeps all of its state in one Postgres table,
  created by \<open>initDb\<close>:
  \<^verbatim>\<open>
  CREATE TABLE IF NOT EXISTS links (
    id SERIAL PRIMARY KEY, code VARCHAR(8) UNIQUE NOT NULL, url TEXT NOT NULL,
    clicks INT DEFAULT 0, last_clicked TIMESTAMP, created_at TIMESTAMP DEFAULT NOW());
  \<close>
  A row is a record; the table is the list of its rows in insertion order, together
  with the sequence behind \<open>id\<close> and the log of the statements \<open>pool.query\<close> was
  called with. Every handler talks to the table only through \<open>pool_query\<close>.

  Modelling choices, each the same for all handlers:
  \<^item> the only INSERT of the program gives \<open>clicks\<close> explicitly and leaves
    \<open>created_at\<close> to its default, so both columns are modelled as never null;
  \<^item> a timestamp is a natural number, and the value of \<open>NOW()\<close> is an argument of
    every statement;
  \<^item> \<open>INT\<close> is the 32-bit signed integer of Postgres: arithmetic that leaves its
    range raises an error, it does not wrap; the sequence behind \<open>SERIAL\<close> has the same
    largest value, and \<open>nextval\<close> raises once it is reached. A value the sequence has
    given out is not given back when the unique constraint then rejects the row;
  \<^item> a request field (\<open>req.body.url\<close>, \<open>req.body.code\<close>, \<open>req.query.search\<close>)
    is absent or a string; other JSON values are outside the model;
  \<^item> the connection to the database never fails: a statement raises only for the
    reasons the schema gives (unique constraint, column width, integer range, end of
    the sequence);
  \<^item> \<open>isUrl\<close>, the check of the package \<open>is-url\<close>, is a parameter of the create
    handler: every theorem holds for any such check;
  \<^item> \<open>encodeUrl\<close>, through which \<open>res.redirect\<close> writes the Location header, is a
    parameter of the redirect handler in the same way;
  \<^item> each handler is a function of its request and the state, and a sequence of
    requests is served one request after the other: the interleaving of handlers at
    their \<open>await\<close>s is not modelled;
  \<^item> a request \<open>GET /segment\<close> goes through the routes in the order of their
    registration (\<open>route_get\<close>), compared without regard to letter case as Express
    does by default; the segment is the text between the slashes as it was sent, with
    no percent escape in it, so that it is also the value of \<open>req.params.code\<close>.
\<close>

type_synonym timestamp = nat

record link =
  link_id :: nat
  code :: string
  url :: string
  clicks :: int
  last_clicked :: "timestamp option"
  created_at :: timestamp

datatype stmt =
    SelectLinks
    \<comment> \<open>SELECT code, url, clicks, last_clicked, created_at FROM links ORDER BY created_at DESC\<close>
  | SelectLinksLike string
    \<comment> \<open>... FROM links WHERE code ILIKE $1 OR url ILIKE $1 ORDER BY created_at DESC\<close>
  | SelectOne string
    \<comment> \<open>SELECT 1 FROM links WHERE code = $1\<close>
  | InsertLink string string int "timestamp option"
    \<comment> \<open>INSERT INTO links (code, url, clicks, last_clicked) VALUES ($1, $2, $3, $4)\<close>
  | DeleteLink string
    \<comment> \<open>DELETE FROM links WHERE code = $1\<close>
  | SelectLink string
    \<comment> \<open>SELECT code, url, clicks, last_clicked, created_at FROM links WHERE code = $1\<close>
  | SelectUrl string
    \<comment> \<open>SELECT url FROM links WHERE code = $1 LIMIT 1\<close>
  | UpdateClicks string
    \<comment> \<open>UPDATE links SET clicks = clicks + 1, last_clicked = NOW() WHERE code = $1\<close>

datatype pg_error = UniqueViolation | StringTooLong | IntegerOutOfRange | SequenceExhausted

record pg =
  links :: "link list"
  links_id_seq :: nat
  queries :: "stmt list"

record qresult =
  rows :: "link list"
  rowCount :: nat

definition initDb :: pg where
  "initDb = \<lparr>links = [], links_id_seq = 0, queries = []\<rparr>"

definition int4_max :: int where
  "int4_max = 2147483647"

definition int4_min :: int where
  "int4_min = - 2147483648"

definition selected :: "link list \<Rightarrow> qresult" where
  "selected ls = \<lparr>rows = ls, rowCount = length ls\<rparr>"

definition affected :: "nat \<Rightarrow> qresult" where
  "affected n = \<lparr>rows = [], rowCount = n\<rparr>"

subsection \<open>LIKE and ILIKE\<close>

text \<open>
  The pattern language of LIKE: \<open>%\<close> stands for any run of characters, \<open>_\<close> for any
  one character, and a backslash makes the character after it literal. A pattern that
  ends in a lone backslash is an error in Postgres; the only patterns of the program
  end in \<open>%\<close>, so that case is given the value False here. ILIKE compares the
  lower-cased text with the lower-cased pattern (ASCII letters).
\<close>

definition pct :: char where "pct = CHR 0x25"
definition underscore :: char where "underscore = CHR 0x5F"
definition backslash :: char where "backslash = CHR 0x5C"

fun like :: "string \<Rightarrow> string \<Rightarrow> bool" where
  "like [] t = (t = [])"
| "like (p # ps) t =
     (if p = backslash then
        (case ps of
           [] \<Rightarrow> False
         | q # qs \<Rightarrow> (case t of [] \<Rightarrow> False | c # cs \<Rightarrow> c = q \<and> like qs cs))
      else if p = pct then
        (like ps t \<or> (case t of [] \<Rightarrow> False | c # cs \<Rightarrow> like (p # ps) cs))
      else if p = underscore then
        (case t of [] \<Rightarrow> False | c # cs \<Rightarrow> like ps cs)
      else
        (case t of [] \<Rightarrow> False | c # cs \<Rightarrow> c = p \<and> like ps cs))"

definition lower :: "char \<Rightarrow> char" where
  "lower c = (let n = (of_char c :: nat) in if 65 \<le> n \<and> n \<le> 90 then char_of (n + 32) else c)"

definition ilike :: "string \<Rightarrow> string \<Rightarrow> bool" where
  "ilike t p = like (map lower p) (map lower t)"

subsection \<open>Executing a statement\<close>

definition order_by_created_at_desc :: "link list \<Rightarrow> link list" where
  \<comment> \<open>newest first; rows with the same time keep the order of their insertion\<close>
  "order_by_created_at_desc ls = rev (sort_key created_at (rev ls))"

definition varchar8 :: "string \<Rightarrow> pg_error + string" where
  \<comment> \<open>storing into VARCHAR(8): excess characters are dropped when all are spaces, an error otherwise\<close>
  "varchar8 s = (if \<forall>c \<in> set (drop 8 s). c = CHR '' '' then Inr (take 8 s) else Inl StringTooLong)"

definition int4 :: "int \<Rightarrow> pg_error + int" where
  "int4 k = (if int4_min \<le> k \<and> k \<le> int4_max then Inr k else Inl IntegerOutOfRange)"

fun exec :: "stmt \<Rightarrow> timestamp \<Rightarrow> pg \<Rightarrow> (pg_error + qresult) \<times> pg" where
  "exec SelectLinks now db =
     (Inr (selected (order_by_created_at_desc (links db))), db)"
| "exec (SelectLinksLike p) now db =
     (Inr (selected (order_by_created_at_desc
        (filter (\<lambda>l. ilike (code l) p \<or> ilike (url l) p) (links db)))), db)"
| "exec (SelectOne c) now db =
     (Inr (selected (filter (\<lambda>l. code l = c) (links db))), db)"
| "exec (InsertLink c u k lc) now db =
     (case varchar8 c of
        Inl e \<Rightarrow> (Inl e, db)
      | Inr c' \<Rightarrow>
         (case int4 k of
            Inl e \<Rightarrow> (Inl e, db)
          | Inr k' \<Rightarrow>
             if int4_max \<le> int (links_id_seq db) then (Inl SequenceExhausted, db)
             else
               (let i = links_id_seq db + 1;
                    db' = db\<lparr>links_id_seq := i\<rparr>
                in if c' \<in> code ` set (links db) then (Inl UniqueViolation, db')
                   else (Inr (affected 1),
                         db'\<lparr>links := links db @
                           [\<lparr>link_id = i, code = c', url = u, clicks = k',
                             last_clicked = lc, created_at = now\<rparr>]\<rparr>))))"
| "exec (DeleteLink c) now db =
     (Inr (affected (length (filter (\<lambda>l. code l = c) (links db)))),
      db\<lparr>links := filter (\<lambda>l. code l \<noteq> c) (links db)\<rparr>)"
| "exec (SelectLink c) now db =
     (Inr (selected (filter (\<lambda>l. code l = c) (links db))), db)"
| "exec (SelectUrl c) now db =
     (Inr (selected (take 1 (filter (\<lambda>l. code l = c) (links db)))), db)"
| "exec (UpdateClicks c) now db =
     (if \<exists>l \<in> set (links db). code l = c \<and> int4_max < clicks l + 1
      then (Inl IntegerOutOfRange, db)
      else (Inr (affected (length (filter (\<lambda>l. code l = c) (links db)))),
            db\<lparr>links := map (\<lambda>l. if code l = c
                                   then l\<lparr>clicks := clicks l + 1, last_clicked := Some now\<rparr>
                                   else l) (links db)\<rparr>))"

definition pool_query :: "stmt \<Rightarrow> timestamp \<Rightarrow> pg \<Rightarrow> (pg_error + qresult) \<times> pg" where
  "pool_query q now db = exec q now (db\<lparr>queries := queries db @ [q]\<rparr>)"

section \<open>Responses\<close>

type_synonym link_cols = "string \<times> string \<times> int \<times> timestamp option \<times> timestamp"

definition cols :: "link \<Rightarrow> link_cols" where
  "cols l = (code l, url l, clicks l, last_clicked l, created_at l)"

datatype body =
    JsonError string
  | JsonMessage string
  | JsonRows "link_cols list"
  | JsonCreated string string string int
  | Send string
  | Render404 string
  | RenderStats link_cols string
  | Location string
  | JsonHealth
  | RenderDashboard

record response =
  status :: nat
  body :: body

definition json :: "nat \<Rightarrow> body \<Rightarrow> response" where
  "json s b = \<lparr>status = s, body = b\<rparr>"

definition server_error_json :: response where
  "server_error_json = json 500 (JsonError ''Server error'')"

definition server_error_text :: response where
  "server_error_text = \<lparr>status = 500, body = Send ''Server error''\<rparr>"

record http =
  protocol :: string
  host :: string

section \<open>The code generator\<close>

text \<open>
  \<open>Math.random()\<close> is a source of numbers: the state is the sequence of the numbers
  still to come, and a draw takes the first. A number is an IEEE double between 0 and 1,
  written \<open>mant / 2 ^ expo\<close> with a significand of at most 53 bits; that every draw has
  this form is a hypothesis of the theorems that need it. \<open>Math.random() * chars.length\<close>
  is the product of doubles: the exact product \<open>mant * n / 2 ^ expo\<close>, rounded to 53
  significant bits, to the nearest and on a tie to the even neighbour. The product of
  a number below 1 and a small integer neither overflows nor falls below the normal
  range, so nothing else of the format is needed. JavaScript gives \<open>undefined\<close> for an
  index outside the string, and \<open>code += undefined\<close> appends the nine letters of that
  word.
\<close>

record double =
  mant :: nat
  expo :: nat

definition is_double01 :: "double \<Rightarrow> bool" where
  \<comment> \<open>a double in [0, 1): at most 53 bits of significand, and an exponent that keeps it below 1\<close>
  "is_double01 x = (mant x < 2 ^ 53 \<and> 53 \<le> expo x)"

type_synonym rng = "nat \<Rightarrow> double"

definition Math_random :: "rng \<Rightarrow> double \<times> rng" where
  "Math_random g = (g 0, \<lambda>n. g (Suc n))"

function excess :: "nat \<Rightarrow> nat" where
  \<comment> \<open>the number of bits a significand has beyond 53\<close>
  "excess m = (if m < 2 ^ 53 then 0 else Suc (excess (m div 2)))"
  by pat_completeness auto
termination
  by (relation "measure (\<lambda>m. m)") auto

declare excess.simps [simp del]

definition round_even :: "nat \<Rightarrow> nat \<Rightarrow> nat" where
  \<comment> \<open>\<open>m / 2 ^ s\<close> rounded to the nearest integer, a tie to the even one\<close>
  "round_even m s =
     (let q = m div 2 ^ s; r = m mod 2 ^ s; half = 2 ^ (s - 1)
      in if s = 0 then m
         else if half < r \<or> (r = half \<and> odd q) then q + 1 else q)"

definition floor_times :: "double \<Rightarrow> nat \<Rightarrow> int" where
  \<comment> \<open>\<open>Math.floor(x * n)\<close>\<close>
  "floor_times x n =
     (let m = mant x * n; s = excess m
      in int ((round_even m s * 2 ^ s) div 2 ^ expo x))"

definition chars :: string where
  "chars = ''ABCDEFGHIJKLMNOPQRSTUVWXYZabcdefghijklmnopqrstuvwxyz0123456789''"

definition char_at :: "string \<Rightarrow> int \<Rightarrow> string" where
  "char_at s i = (if 0 \<le> i \<and> i < int (length s) then [s ! nat i] else ''undefined'')"

fun generateCode_loop :: "nat \<Rightarrow> string \<Rightarrow> rng \<Rightarrow> string \<times> rng" where
  "generateCode_loop 0 acc g = (acc, g)"
| "generateCode_loop (Suc n) acc g =
     (let (r, g') = Math_random g
      in generateCode_loop n (acc @ char_at chars (floor_times r (length chars))) g')"

definition generateCode :: "nat \<Rightarrow> rng \<Rightarrow> string \<times> rng" where
  "generateCode len g = generateCode_loop len [] g"

section \<open>The route handlers\<close>

subsection \<open>GET /api/links\<close>

definition get_api_links :: "string option \<Rightarrow> timestamp \<Rightarrow> pg \<Rightarrow> response \<times> pg" where
  "get_api_links search now db =
     (let q = (case search of
                 None \<Rightarrow> SelectLinks
               | Some s \<Rightarrow> if s = [] then SelectLinks else SelectLinksLike ([pct] @ s @ [pct]));
          (r, db') = pool_query q now db
      in case r of
           Inl e \<Rightarrow> (server_error_json, db')
         | Inr res \<Rightarrow> (json 200 (JsonRows (map cols (rows res))), db'))"

subsection \<open>POST /api/links\<close>

definition alnum :: "char \<Rightarrow> bool" where
  "alnum c = (let n = (of_char c :: nat)
              in (65 \<le> n \<and> n \<le> 90) \<or> (97 \<le> n \<and> n \<le> 122) \<or> (48 \<le> n \<and> n \<le> 57))"

definition code_format :: "string \<Rightarrow> bool" where
  \<comment> \<open>/^[A-Za-z0-9]{6,8}$/.test(s)\<close>
  "code_format s = (6 \<le> length s \<and> length s \<le> 8 \<and> list_all alnum s)"

fun find_code :: "nat \<Rightarrow> timestamp \<Rightarrow> rng \<Rightarrow> pg \<Rightarrow> (pg_error + string option) \<times> rng \<times> pg" where
  "find_code 0 now g db = (Inr None, g, db)"
| "find_code (Suc n) now g db =
     (let (c, g') = generateCode 6 g;
          (r, db') = pool_query (SelectOne c) now db
      in case r of
           Inl e \<Rightarrow> (Inl e, g', db')
         | Inr res \<Rightarrow> if rowCount res = 0 then (Inr (Some c), g', db')
                      else find_code n now g' db')"

definition store_link :: "http \<Rightarrow> string \<Rightarrow> string \<Rightarrow> timestamp \<Rightarrow> pg \<Rightarrow> response \<times> pg" where
  "store_link req u c now db =
     (let (r, db') = pool_query (InsertLink c u 0 None) now db
      in case r of
           Inl e \<Rightarrow> (server_error_json, db')
         | Inr res \<Rightarrow>
            (let domain = protocol req @ ''://'' @ host req;
                 fullUrl = domain @ ''/'' @ c
             in (json 201 (JsonCreated c fullUrl u 0), db')))"

definition truthy :: "string option \<Rightarrow> bool" where
  \<comment> \<open>a missing field is undefined, and undefined and the empty string are the falsy ones\<close>
  "truthy field = (case field of None \<Rightarrow> False | Some s \<Rightarrow> s \<noteq> [])"

definition create_custom ::
  "http \<Rightarrow> string \<Rightarrow> string \<Rightarrow> timestamp \<Rightarrow> rng \<Rightarrow> pg \<Rightarrow> response \<times> rng \<times> pg" where
  \<comment> \<open>the branch \<open>if (customCode) { ... }\<close>, followed by the INSERT and the 201 response\<close>
  "create_custom req u customCode now g db =
     (if \<not> code_format customCode
      then (json 400 (JsonError ''Code must be 6-8 chars [A-Za-z0-9]''), g, db)
      else
        (let (r, db') = pool_query (SelectOne customCode) now db
         in case r of
              Inl e \<Rightarrow> (server_error_json, g, db')
            | Inr res \<Rightarrow>
               if rowCount res > 0
               then (json 409 (JsonError ''Code already in use''), g, db')
               else (let (resp, db'') = store_link req u customCode now db'
                     in (resp, g, db''))))"

definition create_random ::
  "http \<Rightarrow> string \<Rightarrow> timestamp \<Rightarrow> rng \<Rightarrow> pg \<Rightarrow> response \<times> rng \<times> pg" where
  \<comment> \<open>the branch \<open>else { ... }\<close>, followed by the INSERT and the 201 response\<close>
  "create_random req u now g db =
     (let (r, g', db') = find_code 10 now g db
      in case r of
           Inl e \<Rightarrow> (server_error_json, g', db')
         | Inr None \<Rightarrow> (json 500 (JsonError ''Unable to generate unique code''), g', db')
         | Inr (Some c) \<Rightarrow>
            (let (resp, db'') = store_link req u c now db'
             in (resp, g', db'')))"

definition post_api_links ::
  "(string \<Rightarrow> bool) \<Rightarrow> http \<Rightarrow> string option \<Rightarrow> string option \<Rightarrow> timestamp \<Rightarrow> rng \<Rightarrow> pg
     \<Rightarrow> response \<times> rng \<times> pg" where
  "post_api_links isUrl req url_field code_field now g db =
     (if \<not> truthy url_field \<or> \<not> isUrl (the url_field)
      then (json 400 (JsonError ''Invalid or missing URL''), g, db)
      else if truthy code_field
      then create_custom req (the url_field) (the code_field) now g db
      else create_random req (the url_field) now g db)"

subsection \<open>DELETE /api/links/:code\<close>

definition delete_api_links :: "string \<Rightarrow> timestamp \<Rightarrow> pg \<Rightarrow> response \<times> pg" where
  "delete_api_links c now db =
     (let (r, db') = pool_query (DeleteLink c) now db
      in case r of
           Inl e \<Rightarrow> (server_error_json, db')
         | Inr res \<Rightarrow>
            if rowCount res = 0 then (json 404 (JsonError ''Short URL not found''), db')
            else (json 200 (JsonMessage ''Short URL deleted''), db'))"

subsection \<open>GET /stats/:code\<close>

definition get_stats :: "http \<Rightarrow> string \<Rightarrow> timestamp \<Rightarrow> pg \<Rightarrow> response \<times> pg" where
  "get_stats req c now db =
     (let (r, db') = pool_query (SelectLink c) now db
      in case r of
           Inl e \<Rightarrow> (server_error_text, db')
         | Inr res \<Rightarrow>
            (case rows res of
               [] \<Rightarrow> (\<lparr>status = 404, body = Render404 ''Short URL not found''\<rparr>, db')
             | l # _ \<Rightarrow>
                (let fullShortUrl = protocol req @ ''://'' @ host req @ ''/'' @ code l
                 in (\<lparr>status = 200, body = RenderStats (cols l) fullShortUrl\<rparr>, db'))))"

subsection \<open>GET /:code\<close>

definition get_code ::
  "(string \<Rightarrow> string) \<Rightarrow> string \<Rightarrow> timestamp \<Rightarrow> pg \<Rightarrow> response \<times> pg" where
  \<comment> \<open>\<open>res.redirect\<close> writes the target into the Location header through \<open>encodeUrl\<close>\<close>
  "get_code encodeUrl c now db =
     (if c = ''api'' \<or> c = ''stats'' \<or> c = ''health''
      then (\<lparr>status = 404, body = Send ''Not found''\<rparr>, db)
      else
        (let (r, db') = pool_query (SelectUrl c) now db
         in case r of
              Inl e \<Rightarrow> (server_error_text, db')
            | Inr res \<Rightarrow>
               (case rows res of
                  [] \<Rightarrow> (\<lparr>status = 404, body = Send ''Short URL not found''\<rparr>, db')
                | l # _ \<Rightarrow>
                   (let (r2, db'') = pool_query (UpdateClicks c) now db'
                    in case r2 of
                         Inl e \<Rightarrow> (server_error_text, db'')
                       | Inr res2 \<Rightarrow>
                          (\<lparr>status = 302, body = Location (encodeUrl (url l))\<rparr>, db'')))))"

subsection \<open>The routes of one path segment\<close>

text \<open>
  The router tries its routes in the order of their registration: \<open>/_ping\<close>,
  \<open>/_test-html\<close>, \<open>/\<close>, the routes under \<open>/api/links\<close> and \<open>/stats/:code\<close>, which no
  single segment matches, then \<open>/health\<close> and last \<open>/:code\<close>. The health answer carries
  the uptime and the time of day, which no claim reads: it is one constant here.
\<close>

definition route_get ::
  "(string \<Rightarrow> string) \<Rightarrow> string \<Rightarrow> timestamp \<Rightarrow> pg \<Rightarrow> response \<times> pg" where
  "route_get encodeUrl seg now db =
     (if map lower seg = ''_ping'' then (\<lparr>status = 200, body = Send ''ok-debug''\<rparr>, db)
      else if map lower seg = ''_test-html''
      then (\<lparr>status = 200,
             body = Send ''<html><body><h1>test html OK</h1></body></html>''\<rparr>, db)
      else if seg = [] then (\<lparr>status = 200, body = RenderDashboard\<rparr>, db)
      else if map lower seg = ''health'' then (\<lparr>status = 200, body = JsonHealth\<rparr>, db)
      else get_code encodeUrl seg now db)"

section \<open>Sequences of requests\<close>

text \<open>
  The requests the claims speak of, and the server handling them one after the other:
  each request comes with the time at which it is served, and the generator and the
  table are passed from one request to the next. \<open>GET_code c\<close> is the request
  \<open>GET /c\<close>.
\<close>

datatype request =
    GET_api_links "string option"
  | POST_api_links http "string option" "string option"
  | DELETE_api_links string
  | GET_stats http string
  | GET_code string

fun handle ::
  "(string \<Rightarrow> bool) \<Rightarrow> (string \<Rightarrow> string) \<Rightarrow> request \<Rightarrow> timestamp \<Rightarrow> rng \<Rightarrow> pg
     \<Rightarrow> response \<times> rng \<times> pg" where
  "handle isUrl encodeUrl (GET_api_links search) now g db =
     (let (r, db') = get_api_links search now db in (r, g, db'))"
| "handle isUrl encodeUrl (POST_api_links req url_field code_field) now g db =
     post_api_links isUrl req url_field code_field now g db"
| "handle isUrl encodeUrl (DELETE_api_links c) now g db =
     (let (r, db') = delete_api_links c now db in (r, g, db'))"
| "handle isUrl encodeUrl (GET_stats req c) now g db =
     (let (r, db') = get_stats req c now db in (r, g, db'))"
| "handle isUrl encodeUrl (GET_code c) now g db =
     (let (r, db') = route_get encodeUrl c now db in (r, g, db'))"

fun serve ::
  "(string \<Rightarrow> bool) \<Rightarrow> (string \<Rightarrow> string) \<Rightarrow> (request \<times> timestamp) list \<Rightarrow> rng \<Rightarrow> pg
     \<Rightarrow> response list \<times> rng \<times> pg" where
  "serve isUrl encodeUrl [] g db = ([], g, db)"
| "serve isUrl encodeUrl ((rq, now) # rest) g db =
     (let (r, g', db') = handle isUrl encodeUrl rq now g db;
          (rs, g'', db'') = serve isUrl encodeUrl rest g' db'
      in (r # rs, g'', db''))"

section \<open>Constraints of the schema, and notions the claims are stated with\<close>

definition reaches_code :: "string \<Rightarrow> bool" where
  \<comment> \<open>\<open>GET /c\<close> is answered by the handler of \<open>/:code\<close>, and not as a reserved word\<close>
  "reaches_code c =
     (c \<noteq> [] \<and> map lower c \<noteq> ''_ping'' \<and> map lower c \<noteq> ''_test-html''
      \<and> map lower c \<noteq> ''health'' \<and> c \<noteq> ''api'' \<and> c \<noteq> ''stats'')"

definition unique_code :: "pg \<Rightarrow> bool" where
  \<comment> \<open>code VARCHAR(8) UNIQUE\<close>
  "unique_code db = distinct (map code (links db))"

definition primary_key :: "pg \<Rightarrow> bool" where
  \<comment> \<open>id SERIAL PRIMARY KEY: no id twice, and every id was issued by the sequence\<close>
  "primary_key db =
     (distinct (map link_id (links db)) \<and> (\<forall>l \<in> set (links db). link_id l \<le> links_id_seq db))"

definition counters_ok :: "link \<Rightarrow> bool" where
  \<comment> \<open>the counter is not negative, and the time of the last click is null exactly at 0\<close>
  "counters_ok l = (0 \<le> clicks l \<and> (last_clicked l = None \<longleftrightarrow> clicks l = 0))"

definition clicked :: "string \<Rightarrow> timestamp \<Rightarrow> link \<Rightarrow> link" where
  \<comment> \<open>what the UPDATE of the redirect does to one row\<close>
  "clicked c now l =
     (if code l = c then l\<lparr>clicks := clicks l + 1, last_clicked := Some now\<rparr> else l)"

definition candidates :: "rng \<Rightarrow> nat \<Rightarrow> string list" where
  \<comment> \<open>the codes that n calls of \<open>generateCode()\<close> in a row return: call j reads the draws 6j to 6j+5\<close>
  "candidates g n = map (\<lambda>j. fst (generateCode 6 (\<lambda>m. g (m + 6 * j)))) [0..<n]"

definition new_link :: "pg \<Rightarrow> string \<Rightarrow> string \<Rightarrow> timestamp \<Rightarrow> link" where
  \<comment> \<open>the row the INSERT of the create handler adds\<close>
  "new_link db c u now =
     \<lparr>link_id = links_id_seq db + 1, code = c, url = u, clicks = 0,
      last_clicked = None, created_at = now\<rparr>"

definition table_ok :: "pg \<Rightarrow> bool" where
  \<comment> \<open>what every table reached from the empty one satisfies\<close>
  "table_ok db = (primary_key db \<and> (\<forall>l \<in> set (links db). counters_ok l))"

definition links_step :: "pg \<Rightarrow> pg \<Rightarrow> bool" where
  \<comment> \<open>the four ways in which a statement of the program changes the table, or leaves it\<close>
  "links_step db db' =
     (links_id_seq db \<le> links_id_seq db' \<and>
      (links db' = links db
       \<or> (\<exists>c. links db' = filter (\<lambda>l. code l \<noteq> c) (links db))
       \<or> (\<exists>c now. links db' = map (clicked c now) (links db))
       \<or> (\<exists>c u now. links db' = links db @ [new_link db c u now]
                    \<and> links_id_seq db' = links_id_seq db + 1)))"

definition grows :: "pg \<Rightarrow> pg \<Rightarrow> bool" where
  \<comment> \<open>every row of the later table is new, or an earlier row with at least its clicks\<close>
  "grows db db' =
     (links_id_seq db \<le> links_id_seq db' \<and>
      (\<forall>l' \<in> set (links db').
         links_id_seq db < link_id l'
         \<or> (\<exists>l \<in> set (links db). link_id l = link_id l' \<and> clicks l \<le> clicks l')))"

definition literal :: "string \<Rightarrow> bool" where
  \<comment> \<open>a string in which no character has a special meaning for LIKE\<close>
  "literal s = (\<forall>c \<in> set s. c \<noteq> pct \<and> c \<noteq> underscore \<and> c \<noteq> backslash)"

section \<open>Lemmas about the statements and the handlers\<close>

lemma filter_code_unique:
  "distinct (map code ls) \<Longrightarrow> l \<in> set ls \<Longrightarrow> filter (\<lambda>r. code r = code l) ls = [l]"
proof (induction ls)
  case Nil
  then show ?case by simp
next
  case (Cons a ls)
  show ?case
  proof (cases "a = l")
    case True
    with Cons.prems have "\<forall>r \<in> set ls. code r \<noteq> code l" by (auto simp: image_iff)
    then have "filter (\<lambda>r. code r = code l) ls = []" by (simp add: filter_empty_conv)
    with True show ?thesis by simp
  next
    case False
    with Cons.prems have "l \<in> set ls" and "code a \<noteq> code l" by force+
    with Cons show ?thesis by simp
  qed
qed

lemma filter_code_absent:
  "c \<notin> code ` set ls \<Longrightarrow> filter (\<lambda>r. code r = c) ls = []"
  by (auto simp: filter_empty_conv)

lemma pool_query_SelectUrl:
  "pool_query (SelectUrl c) now db =
     (Inr (selected (take 1 (filter (\<lambda>l. code l = c) (links db)))),
      db\<lparr>queries := queries db @ [SelectUrl c]\<rparr>)"
  by (simp add: pool_query_def)

lemma pool_query_UpdateClicks:
  "pool_query (UpdateClicks c) now db =
     (if \<exists>l \<in> set (links db). code l = c \<and> int4_max < clicks l + 1
      then (Inl IntegerOutOfRange, db\<lparr>queries := queries db @ [UpdateClicks c]\<rparr>)
      else (Inr (affected (length (filter (\<lambda>l. code l = c) (links db)))),
            db\<lparr>links := map (clicked c now) (links db),
               queries := queries db @ [UpdateClicks c]\<rparr>))"
  by (simp add: pool_query_def clicked_def)

lemma get_code_reserved:
  "c = ''api'' \<or> c = ''stats'' \<or> c = ''health'' \<Longrightarrow>
   get_code encodeUrl c now db = (\<lparr>status = 404, body = Send ''Not found''\<rparr>, db)"
  by (simp add: get_code_def)

lemma get_code_absent:
  assumes "\<not> (c = ''api'' \<or> c = ''stats'' \<or> c = ''health'')" and "c \<notin> code ` set (links db)"
  shows "get_code encodeUrl c now db =
     (\<lparr>status = 404, body = Send ''Short URL not found''\<rparr>,
      db\<lparr>queries := queries db @ [SelectUrl c]\<rparr>)"
  using assms by (simp add: get_code_def pool_query_SelectUrl selected_def filter_code_absent)

lemma get_code_found:
  assumes "\<not> (c = ''api'' \<or> c = ''stats'' \<or> c = ''health'')"
    and "unique_code db" and "l \<in> set (links db)" and "code l = c" and "clicks l < int4_max"
  shows "get_code encodeUrl c now db =
     (\<lparr>status = 302, body = Location (encodeUrl (url l))\<rparr>,
      db\<lparr>links := map (clicked c now) (links db),
         queries := queries db @ [SelectUrl c, UpdateClicks c]\<rparr>)"
proof -
  have f: "filter (\<lambda>r. code r = c) (links db) = [l]"
    using assms filter_code_unique [of "links db" l] by (simp add: unique_code_def)
  have only: "\<And>r. r \<in> set (links db) \<Longrightarrow> code r = c \<Longrightarrow> r = l"
  proof -
    fix r assume "r \<in> set (links db)" "code r = c"
    then have "r \<in> set (filter (\<lambda>r. code r = c) (links db))" by simp
    then show "r = l" by (simp add: f)
  qed
  have no: "\<not> (\<exists>r \<in> set (links db). code r = c \<and> int4_max < clicks r + 1)"
    using only assms(5) by fastforce
  show ?thesis
    using assms(1) no
    by (auto simp: get_code_def pool_query_SelectUrl pool_query_UpdateClicks selected_def f)
qed

lemma get_code_overflow:
  assumes "\<not> (c = ''api'' \<or> c = ''stats'' \<or> c = ''health'')"
    and "l \<in> set (links db)" and "code l = c" and "clicks l = int4_max"
  shows "get_code encodeUrl c now db =
     (server_error_text, db\<lparr>queries := queries db @ [SelectUrl c, UpdateClicks c]\<rparr>)"
proof -
  have "l \<in> set (filter (\<lambda>r. code r = c) (links db))" using assms by simp
  then obtain x xs where f: "filter (\<lambda>r. code r = c) (links db) = x # xs"
    by (cases "filter (\<lambda>r. code r = c) (links db)") auto
  have ex: "\<exists>r \<in> set (links db). code r = c \<and> int4_max < clicks r + 1"
    using assms by (intro bexI [of _ l]) auto
  show ?thesis
    using assms(1) ex
    by (simp add: get_code_def pool_query_SelectUrl pool_query_UpdateClicks selected_def f)
qed

lemma code_clicked [simp]: "code (clicked c now l) = code l"
  by (simp add: clicked_def)

lemma url_clicked [simp]: "url (clicked c now l) = url l"
  by (simp add: clicked_def)

lemma link_id_clicked [simp]: "link_id (clicked c now l) = link_id l"
  by (simp add: clicked_def)

lemma clicks_clicked: "clicks (clicked c now l) = (if code l = c then clicks l + 1 else clicks l)"
  by (simp add: clicked_def)

lemma fold_clicked_other: "code r \<noteq> c \<Longrightarrow> fold (clicked c) ts r = r"
  by (induction ts) (simp_all add: clicked_def)

lemma fold_clicked_same:
  "code r = c \<Longrightarrow>
   fold (clicked c) ts r =
     r\<lparr>clicks := clicks r + int (length ts),
       last_clicked := (if ts = [] then last_clicked r else Some (last ts))\<rparr>"
proof (induction ts arbitrary: r)
  case Nil
  then show ?case by simp
next
  case (Cons t ts)
  have "code (clicked c t r) = c" using Cons.prems by simp
  from Cons.IH [OF this] show ?case
    using Cons.prems by (simp add: clicked_def)
qed

lemma unique_code_clicked:
  "unique_code db \<Longrightarrow> unique_code (db\<lparr>links := map (clicked c now) (links db), queries := qs\<rparr>)"
  by (simp add: unique_code_def o_def)

lemma lower_health: "map lower ''health'' = ''health''"
  by (simp add: lower_def Let_def)

lemma reaches_code_not_reserved:
  "reaches_code c \<Longrightarrow> \<not> (c = ''api'' \<or> c = ''stats'' \<or> c = ''health'')"
  using lower_health by (auto simp: reaches_code_def)

lemma route_get_code:
  "reaches_code c \<Longrightarrow> route_get encodeUrl c now db = get_code encodeUrl c now db"
  by (simp add: route_get_def reaches_code_def)

lemma serve_redirects:
  assumes "reaches_code c"
    and "unique_code db" and "l \<in> set (links db)" and "code l = c"
    and "clicks l + int (length ts) \<le> int4_max"
  shows "serve isUrl encodeUrl (map (\<lambda>t. (GET_code c, t)) ts) g db =
     (replicate (length ts) \<lparr>status = 302, body = Location (encodeUrl (url l))\<rparr>, g,
      db\<lparr>links := map (fold (clicked c) ts) (links db),
         queries := queries db @ concat (map (\<lambda>t. [SelectUrl c, UpdateClicks c]) ts)\<rparr>)"
  using assms(2-)
proof (induction ts arbitrary: db l)
  case Nil
  then show ?case by simp
next
  case (Cons t ts)
  let ?db1 = "db\<lparr>links := map (clicked c t) (links db),
                 queries := queries db @ [SelectUrl c, UpdateClicks c]\<rparr>"
  let ?l1 = "clicked c t l"
  have step: "route_get encodeUrl c t db =
      (\<lparr>status = 302, body = Location (encodeUrl (url l))\<rparr>, ?db1)"
    using get_code_found [OF reaches_code_not_reserved [OF assms(1)]
        Cons.prems(1) Cons.prems(2) Cons.prems(3)] Cons.prems(4)
    by (simp add: route_get_code [OF assms(1)])
  have u1: "unique_code ?db1" using Cons.prems(1) by (rule unique_code_clicked)
  have m1: "?l1 \<in> set (links ?db1)" using Cons.prems(2) by simp
  have c1: "code ?l1 = c" using Cons.prems(3) by simp
  have k1: "clicks ?l1 + int (length ts) \<le> int4_max"
    using Cons.prems(3,4) by (simp add: clicks_clicked)
  have ih: "serve isUrl encodeUrl (map (\<lambda>t. (GET_code c, t)) ts) g ?db1 =
     (replicate (length ts) \<lparr>status = 302, body = Location (encodeUrl (url ?l1))\<rparr>, g,
      ?db1\<lparr>links := map (fold (clicked c) ts) (links ?db1),
         queries := queries ?db1 @ concat (map (\<lambda>t. [SelectUrl c, UpdateClicks c]) ts)\<rparr>)"
    by (rule Cons.IH [OF u1 m1 c1 k1])
  show ?case
    by (simp add: step ih o_def)
qed

lemma generateCode_loop_eq:
  "generateCode_loop n acc g =
     (acc @ concat (map (\<lambda>k. char_at chars (floor_times (g k) (length chars))) [0..<n]),
      \<lambda>m. g (m + n))"
proof (induction n arbitrary: acc g)
  case 0
  then show ?case by simp
next
  case (Suc n)
  have "[0..<Suc n] = 0 # map Suc [0..<n]"
    by (simp add: upt_conv_Cons map_Suc_upt del: upt_Suc)
  then show ?case
    by (simp add: Suc.IH Math_random_def o_def del: upt_Suc)
qed

lemma snd_generateCode: "snd (generateCode n g) = (\<lambda>m. g (m + n))"
  by (simp add: generateCode_def generateCode_loop_eq)

lemma fst_generateCode:
  "fst (generateCode n g) =
     concat (map (\<lambda>k. char_at chars (floor_times (g k) (length chars))) [0..<n])"
  by (simp add: generateCode_def generateCode_loop_eq)

lemma length_chars: "length chars = 62"
  by (simp add: chars_def)

lemma alnum_chars: "list_all alnum chars"
  by (simp add: chars_def alnum_def)

lemma excess_small: "m < 2 ^ 53 \<Longrightarrow> excess m = 0"
  by (subst excess.simps) simp

lemma excess_big: "\<not> m < 2 ^ 53 \<Longrightarrow> excess m = Suc (excess (m div 2))"
  by (subst excess.simps) simp

lemma excess_le: "m < 2 ^ (53 + k) \<Longrightarrow> excess m \<le> k"
proof (induction k arbitrary: m)
  case 0
  then show ?case by (simp add: excess_small)
next
  case (Suc k)
  show ?case
  proof (cases "m < 2 ^ 53")
    case True
    then show ?thesis by (simp add: excess_small)
  next
    case False
    have "(2::nat) ^ (53 + Suc k) = 2 ^ (53 + k) * 2"
      by (simp only: add_Suc_right power_Suc mult.commute)
    with Suc.prems have "m < 2 ^ (53 + k) * 2" by (simp only:)
    then have "m div 2 < 2 ^ (53 + k)" by (rule less_mult_imp_div_less)
    then have "excess (m div 2) \<le> k" by (rule Suc.IH)
    with False show ?thesis by (simp add: excess_big)
  qed
qed

lemma round_even_le: "round_even m s * 2 ^ s \<le> m + 2 ^ (s - 1)"
proof (cases s)
  case 0
  then show ?thesis by (simp add: round_even_def)
next
  case (Suc j)
  define q where "q = m div 2 ^ s"
  define r where "r = m mod 2 ^ s"
  have m: "m = q * 2 ^ s + r"
    using div_mult_mod_eq [of m "2 ^ s"] by (simp add: q_def r_def)
  have p: "(2::nat) ^ s = 2 * 2 ^ j" and h: "(2::nat) ^ (s - 1) = 2 ^ j" using Suc by simp_all
  show ?thesis
  proof (cases "2 ^ j < r \<or> (r = 2 ^ j \<and> odd q)")
    case True
    then have up: "round_even m s = q + 1"
      using Suc by (simp add: round_even_def q_def r_def Let_def)
    from True have "2 ^ j \<le> r" by auto
    then have "(q + 1) * 2 ^ s \<le> q * 2 ^ s + r + 2 ^ j"
      by (simp add: p algebra_simps)
    then show ?thesis by (simp only: up h m [symmetric])
  next
    case False
    then have down: "round_even m s = q"
      using Suc by (simp add: round_even_def q_def r_def Let_def)
    have "q * 2 ^ s \<le> m" by (simp add: m)
    then show ?thesis by (simp add: down)
  qed
qed

lemma floor_times_in_range:
  assumes "is_double01 x"
  shows "0 \<le> floor_times x 62 \<and> floor_times x 62 < 62"
proof -
  define m where "m = mant x * 62"
  define s where "s = excess m"
  from assms have mx: "mant x + 1 \<le> 2 ^ 53" and ex: "53 \<le> expo x"
    by (simp_all add: is_double01_def)
  from mx have "(mant x + 1) * 62 \<le> 2 ^ 53 * 62" by (rule mult_le_mono1)
  then have m62: "m + 62 \<le> 2 ^ 53 * 62" by (simp add: m_def algebra_simps)
  then have "m < 2 ^ (53 + 6)" by simp
  then have "s \<le> 6" unfolding s_def by (rule excess_le)
  then have "s - 1 \<le> 5" by simp
  then have "(2::nat) ^ (s - 1) \<le> 2 ^ 5" by (rule power_increasing) simp
  then have half: "(2::nat) ^ (s - 1) \<le> 32" by simp
  have "round_even m s * 2 ^ s \<le> m + 2 ^ (s - 1)" by (rule round_even_le)
  with half m62 have "round_even m s * 2 ^ s < 62 * 2 ^ 53" by simp
  also have "(62::nat) * 2 ^ 53 \<le> 62 * 2 ^ expo x"
  proof (rule mult_le_mono2)
    show "(2::nat) ^ 53 \<le> 2 ^ expo x" using ex by (rule power_increasing) simp
  qed
  finally have "(round_even m s * 2 ^ s) div 2 ^ expo x < 62"
    by (simp add: less_mult_imp_div_less)
  then show ?thesis
    by (simp add: floor_times_def m_def s_def Let_def)
qed

lemma char_at_in_range:
  assumes "is_double01 x"
  shows "\<exists>c. char_at chars (floor_times x (length chars)) = [c] \<and> alnum c"
proof -
  define i where "i = floor_times x (length chars)"
  from floor_times_in_range [OF assms] have lo: "0 \<le> i" and hi: "i < 62"
    by (simp_all add: i_def length_chars)
  have n: "nat i < length chars" using lo hi by (simp add: length_chars)
  have "char_at chars i = [chars ! nat i]"
    using lo hi by (simp add: char_at_def length_chars)
  moreover have "alnum (chars ! nat i)"
    using alnum_chars n by (simp add: list_all_length)
  ultimately show ?thesis unfolding i_def by blast
qed

lemma concat_singletons:
  "\<forall>x \<in> set xs. \<exists>c. f x = [c] \<and> P c \<Longrightarrow>
   length (concat (map f xs)) = length xs \<and> list_all P (concat (map f xs))"
  by (induction xs) auto

lemma generateCode_format:
  assumes "\<forall>k. is_double01 (g k)"
  shows "length (fst (generateCode n g)) = n \<and> list_all alnum (fst (generateCode n g))"
proof -
  have "\<forall>k \<in> set [0..<n]. \<exists>c. char_at chars (floor_times (g k) (length chars)) = [c] \<and> alnum c"
    using assms char_at_in_range by simp
  from concat_singletons [OF this] show ?thesis
    by (simp add: fst_generateCode)
qed

lemma candidates_Suc:
  "candidates g (Suc n) = fst (generateCode 6 g) # candidates (\<lambda>m. g (m + 6)) n"
proof -
  have "[0..<Suc n] = 0 # map Suc [0..<n]"
    by (simp add: upt_conv_Cons map_Suc_upt del: upt_Suc)
  then show ?thesis
    by (simp add: candidates_def o_def ac_simps del: upt_Suc)
qed

lemma candidates_0 [simp]: "candidates g 0 = []"
  by (simp add: candidates_def)

lemma length_candidates [simp]: "length (candidates g n) = n"
  by (simp add: candidates_def)

lemma candidates_format:
  assumes "\<forall>k. is_double01 (g k)" and "c \<in> set (candidates g n)"
  shows "length c = 6 \<and> list_all alnum c"
proof -
  from assms(2) obtain j where c: "c = fst (generateCode 6 (\<lambda>m. g (m + 6 * j)))"
    by (auto simp: candidates_def)
  have "\<forall>k. is_double01 (g (k + 6 * j))" using assms(1) by simp
  from generateCode_format [OF this, of 6] c show ?thesis by simp
qed

lemma pool_query_SelectOne:
  "pool_query (SelectOne c) now db =
     (Inr (selected (filter (\<lambda>l. code l = c) (links db))),
      db\<lparr>queries := queries db @ [SelectOne c]\<rparr>)"
  by (simp add: pool_query_def)

lemma rowCount_selected_code:
  "rowCount (selected (filter (\<lambda>l. code l = c) ls)) = 0 \<longleftrightarrow> c \<notin> code ` set ls"
  by (auto simp: selected_def filter_empty_conv)

lemma find_code_eq:
  "find_code n now g db =
     (case find (\<lambda>c. c \<notin> code ` set (links db)) (candidates g n) of
        None \<Rightarrow>
          (Inr None, (\<lambda>m. g (m + 6 * n)),
           db\<lparr>queries := queries db @ map SelectOne (candidates g n)\<rparr>)
      | Some c \<Rightarrow>
          (Inr (Some c),
           (\<lambda>m. g (m + 6 * (length (takeWhile (\<lambda>c. c \<in> code ` set (links db)) (candidates g n)) + 1))),
           db\<lparr>queries := queries db
                @ map SelectOne (takeWhile (\<lambda>c. c \<in> code ` set (links db)) (candidates g n))
                @ [SelectOne c]\<rparr>))"
proof (induction n arbitrary: g db)
  case 0
  then show ?case by simp
next
  case (Suc n)
  define c where "c = fst (generateCode 6 g)"
  define g' where "g' = (\<lambda>m. g (m + 6))"
  define db' where "db' = db\<lparr>queries := queries db @ [SelectOne c]\<rparr>"
  have gen: "generateCode 6 g = (c, g')"
    using snd_generateCode [of 6 g] by (simp add: prod_eq_iff c_def g'_def)
  have cs: "candidates g (Suc n) = c # candidates g' n"
    by (simp only: candidates_Suc c_def g'_def)
  have l: "links db' = links db" and q: "queries db' = queries db @ [SelectOne c]"
    by (simp_all add: db'_def)
  have g'': "\<And>k. (\<lambda>m. g' (m + k)) = (\<lambda>m. g (m + (6 + k)))"
    by (simp add: g'_def ac_simps)
  show ?case
  proof (cases "c \<in> code ` set (links db)")
    case True
    have "find_code (Suc n) now g db = find_code n now g' db'"
      using True by (simp add: gen pool_query_SelectOne rowCount_selected_code db'_def)
    also note Suc.IH [of g' db']
    finally have "find_code (Suc n) now g db =
     (case find (\<lambda>c. c \<notin> code ` set (links db)) (candidates g' n) of
        None \<Rightarrow>
          (Inr None, (\<lambda>m. g' (m + 6 * n)),
           db'\<lparr>queries := queries db' @ map SelectOne (candidates g' n)\<rparr>)
      | Some c \<Rightarrow>
          (Inr (Some c),
           (\<lambda>m. g' (m + 6 * (length (takeWhile (\<lambda>c. c \<in> code ` set (links db)) (candidates g' n)) + 1))),
           db'\<lparr>queries := queries db'
                @ map SelectOne (takeWhile (\<lambda>c. c \<in> code ` set (links db)) (candidates g' n))
                @ [SelectOne c]\<rparr>))"
      by (simp only: l)
    then show ?thesis
      using True by (simp add: cs g'' q db'_def split: option.splits)
  next
    case False
    have "find_code (Suc n) now g db = (Inr (Some c), g', db')"
      using False by (simp add: gen pool_query_SelectOne rowCount_selected_code db'_def)
    then show ?thesis
      using False by (simp add: cs g'_def db'_def)
  qed
qed

lemma int4_0 [simp]: "int4 0 = Inr 0"
  by (simp add: int4_def int4_min_def int4_max_def)

lemma varchar8_short: "length c \<le> 8 \<Longrightarrow> varchar8 c = Inr c"
  by (simp add: varchar8_def)

lemma all_eq_absent: "\<forall>x \<in> A. x = s \<Longrightarrow> A \<subseteq> B \<Longrightarrow> s \<notin> B \<Longrightarrow> A = {}"
  by auto

lemma varchar8_no_space:
  assumes "varchar8 c = Inr c'" and "CHR '' '' \<notin> set c"
  shows "c' = c"
proof (cases "\<forall>ch \<in> set (drop 8 c). ch = CHR '' ''")
  case True
  with assms(1) have c': "c' = take 8 c" by (simp add: varchar8_def)
  have "set (drop 8 c) \<subseteq> set c" by (rule set_drop_subset)
  with True have "set (drop 8 c) = {}" using assms(2) by (rule all_eq_absent)
  then have "drop 8 c = []" by simp
  then have "length c \<le> 8" by simp
  with c' show ?thesis by simp
next
  case False
  with assms(1) show ?thesis by (simp add: varchar8_def)
qed

lemma pool_query_InsertLink:
  "pool_query (InsertLink c u 0 None) now db =
     (case varchar8 c of
        Inl e \<Rightarrow> (Inl e, db\<lparr>queries := queries db @ [InsertLink c u 0 None]\<rparr>)
      | Inr c' \<Rightarrow>
          if int4_max \<le> int (links_id_seq db)
          then (Inl SequenceExhausted, db\<lparr>queries := queries db @ [InsertLink c u 0 None]\<rparr>)
          else if c' \<in> code ` set (links db)
          then (Inl UniqueViolation, db\<lparr>links_id_seq := links_id_seq db + 1,
                                         queries := queries db @ [InsertLink c u 0 None]\<rparr>)
          else (Inr (affected 1),
                db\<lparr>links := links db @ [new_link db c' u now],
                   links_id_seq := links_id_seq db + 1,
                   queries := queries db @ [InsertLink c u 0 None]\<rparr>))"
  by (simp add: pool_query_def new_link_def Let_def split: sum.splits)

lemma store_link_ok:
  assumes "length c \<le> 8" and "c \<notin> code ` set (links db)"
    and "int (links_id_seq db) < int4_max"
  shows "store_link req u c now db =
     (\<lparr>status = 201, body = JsonCreated c (protocol req @ ''://'' @ host req @ ''/'' @ c) u 0\<rparr>,
      db\<lparr>links := links db @ [new_link db c u now],
         links_id_seq := links_id_seq db + 1,
         queries := queries db @ [InsertLink c u 0 None]\<rparr>)"
  using assms
  by (simp add: store_link_def pool_query_InsertLink varchar8_short json_def)

lemma store_link_exhausted:
  assumes "int4_max \<le> int (links_id_seq db)"
  shows "fst (store_link req u c now db) = server_error_json
       \<and> links (snd (store_link req u c now db)) = links db"
  using assms
  by (simp add: store_link_def pool_query_InsertLink split: sum.splits)

lemma store_link_status:
  "status (fst (store_link req u c now db)) = 201 \<or>
   status (fst (store_link req u c now db)) = 500"
  by (simp add: store_link_def pool_query_InsertLink json_def server_error_json_def
      split: sum.splits)

lemma store_link_201:
  assumes "status (fst (store_link req u c now db)) = 201" and "CHR '' '' \<notin> set c"
  shows "store_link req u c now db =
     (\<lparr>status = 201, body = JsonCreated c (protocol req @ ''://'' @ host req @ ''/'' @ c) u 0\<rparr>,
      db\<lparr>links := links db @ [new_link db c u now],
         links_id_seq := links_id_seq db + 1,
         queries := queries db @ [InsertLink c u 0 None]\<rparr>)"
proof (cases "varchar8 c")
  case (Inl e)
  with assms(1) show ?thesis
    by (simp add: store_link_def pool_query_InsertLink json_def server_error_json_def)
next
  case (Inr c')
  have "c' = c" by (rule varchar8_no_space [OF Inr assms(2)])
  with Inr assms(1) show ?thesis
    by (simp add: store_link_def pool_query_InsertLink json_def server_error_json_def
        split: if_splits)
qed

lemma alnum_not_space: "alnum c \<Longrightarrow> c \<noteq> CHR '' ''"
  by (auto simp: alnum_def)

lemma code_format_no_space: "code_format c \<Longrightarrow> CHR '' '' \<notin> set c"
  using alnum_not_space by (auto simp: code_format_def list_all_iff)

lemma char_at_no_space: "CHR '' '' \<notin> set (char_at chars i)"
proof (cases "0 \<le> i \<and> i < int (length chars)")
  case True
  then have "nat i < length chars" by linarith
  then have "alnum (chars ! nat i)" using alnum_chars by (simp add: list_all_length)
  then have "chars ! nat i \<noteq> CHR '' ''" by (rule alnum_not_space)
  then show ?thesis using True by (simp add: char_at_def)
next
  case False
  then show ?thesis by (auto simp: char_at_def)
qed

lemma generateCode_no_space: "CHR '' '' \<notin> set (fst (generateCode n g))"
  using char_at_no_space by (simp add: fst_generateCode)

lemma candidates_no_space:
  assumes "c \<in> set (candidates g n)"
  shows "CHR '' '' \<notin> set c"
proof -
  from assms obtain j where "c = fst (generateCode 6 (\<lambda>m. g (m + 6 * j)))"
    by (auto simp: candidates_def)
  then show ?thesis by (simp only: generateCode_no_space not_False_eq_True)
qed

lemma create_random_eq:
  "create_random req u now g db =
     (case find (\<lambda>c. c \<notin> code ` set (links db)) (candidates g 10) of
        None \<Rightarrow>
          (\<lparr>status = 500, body = JsonError ''Unable to generate unique code''\<rparr>,
           (\<lambda>m. g (m + 60)),
           db\<lparr>queries := queries db @ map SelectOne (candidates g 10)\<rparr>)
      | Some c \<Rightarrow>
          (fst (store_link req u c now
                 (db\<lparr>queries := queries db
                    @ map SelectOne (takeWhile (\<lambda>c. c \<in> code ` set (links db)) (candidates g 10))
                    @ [SelectOne c]\<rparr>)),
           (\<lambda>m. g (m + 6 * (length (takeWhile (\<lambda>c. c \<in> code ` set (links db)) (candidates g 10)) + 1))),
           snd (store_link req u c now
                 (db\<lparr>queries := queries db
                    @ map SelectOne (takeWhile (\<lambda>c. c \<in> code ` set (links db)) (candidates g 10))
                    @ [SelectOne c]\<rparr>))))"
proof (cases "find (\<lambda>c. c \<notin> code ` set (links db)) (candidates g 10)")
  case None
  then show ?thesis
    by (simp add: create_random_def find_code_eq json_def)
next
  case (Some c)
  then show ?thesis
    by (simp add: create_random_def find_code_eq case_prod_beta)
qed

lemma post_invalid_url:
  "url_field = None \<or> url_field = Some [] \<or> (\<exists>u. url_field = Some u \<and> \<not> isUrl u) \<Longrightarrow>
   post_api_links isUrl req url_field code_field now g db =
     (\<lparr>status = 400, body = JsonError ''Invalid or missing URL''\<rparr>, g, db)"
  by (auto simp: post_api_links_def truthy_def json_def)

lemma post_custom:
  "u \<noteq> [] \<Longrightarrow> isUrl u \<Longrightarrow> cc \<noteq> [] \<Longrightarrow>
   post_api_links isUrl req (Some u) (Some cc) now g db = create_custom req u cc now g db"
  by (simp add: post_api_links_def truthy_def)

lemma post_random:
  "u \<noteq> [] \<Longrightarrow> isUrl u \<Longrightarrow> \<not> truthy code_field \<Longrightarrow>
   post_api_links isUrl req (Some u) code_field now g db = create_random req u now g db"
  by (simp add: post_api_links_def truthy_def)

lemma code_format_nonempty: "code_format cc \<Longrightarrow> cc \<noteq> []"
  by (auto simp: code_format_def)

lemma create_custom_bad_format:
  "\<not> code_format cc \<Longrightarrow>
   create_custom req u cc now g db =
     (\<lparr>status = 400, body = JsonError ''Code must be 6-8 chars [A-Za-z0-9]''\<rparr>, g, db)"
  by (simp add: create_custom_def json_def)

lemma create_custom_taken:
  assumes "code_format cc" and "cc \<in> code ` set (links db)"
  shows "create_custom req u cc now g db =
     (\<lparr>status = 409, body = JsonError ''Code already in use''\<rparr>, g,
      db\<lparr>queries := queries db @ [SelectOne cc]\<rparr>)"
proof -
  have "rowCount (selected (filter (\<lambda>l. code l = cc) (links db))) \<noteq> 0"
    using assms(2) by (simp add: rowCount_selected_code)
  then show ?thesis
    using assms(1) by (simp add: create_custom_def pool_query_SelectOne json_def)
qed

lemma create_custom_free:
  assumes "code_format cc" and "cc \<notin> code ` set (links db)"
    and "int (links_id_seq db) < int4_max"
  shows "create_custom req u cc now g db =
     (\<lparr>status = 201, body = JsonCreated cc (protocol req @ ''://'' @ host req @ ''/'' @ cc) u 0\<rparr>, g,
      db\<lparr>links := links db @ [new_link db cc u now],
         links_id_seq := links_id_seq db + 1,
         queries := queries db @ [SelectOne cc, InsertLink cc u 0 None]\<rparr>)"
proof -
  have z: "rowCount (selected (filter (\<lambda>l. code l = cc) (links db))) = 0"
    using assms(2) by (simp add: rowCount_selected_code)
  have len: "length cc \<le> 8" using assms(1) by (simp add: code_format_def)
  let ?db = "db\<lparr>queries := queries db @ [SelectOne cc]\<rparr>"
  have fr: "cc \<notin> code ` set (links ?db)" using assms(2) by simp
  have sq: "int (links_id_seq ?db) < int4_max" using assms(3) by simp
  from store_link_ok [OF len fr sq, of req u now] show ?thesis
    using assms(1) z by (simp add: create_custom_def pool_query_SelectOne new_link_def)
qed

lemma create_custom_store:
  assumes "code_format cc" and "cc \<notin> code ` set (links db)"
  shows "create_custom req u cc now g db =
     (fst (store_link req u cc now (db\<lparr>queries := queries db @ [SelectOne cc]\<rparr>)), g,
      snd (store_link req u cc now (db\<lparr>queries := queries db @ [SelectOne cc]\<rparr>)))"
proof -
  have z: "rowCount (selected (filter (\<lambda>l. code l = cc) (links db))) = 0"
    using assms(2) by (simp add: rowCount_selected_code)
  show ?thesis
    using assms(1) z by (simp add: create_custom_def pool_query_SelectOne case_prod_beta)
qed

lemma unique_code_append:
  "unique_code db \<Longrightarrow> c \<notin> code ` set (links db) \<Longrightarrow> links db' = links db @ [l] \<Longrightarrow> code l = c \<Longrightarrow>
   unique_code db'"
  by (simp add: unique_code_def)

lemma floor_times_zero: "floor_times \<lparr>mant = 0, expo = 53\<rparr> 62 = 0"
  by (simp add: floor_times_def round_even_def excess_small)

lemma char_at_chars_0: "char_at chars 0 = ''A''"
  by (simp add: char_at_def chars_def)

lemma generateCode_zero: "fst (generateCode 6 (\<lambda>n. \<lparr>mant = 0, expo = 53\<rparr>)) = ''AAAAAA''"
proof -
  have "fst (generateCode 6 (\<lambda>n. \<lparr>mant = 0, expo = 53\<rparr>)) = concat (replicate 6 ''A'')"
    by (simp add: fst_generateCode length_chars floor_times_zero char_at_chars_0
        map_replicate_const)
  also have "\<dots> = ''AAAAAA''" by (simp add: eval_nat_numeral)
  finally show ?thesis .
qed

lemma candidates_zero: "candidates (\<lambda>n. \<lparr>mant = 0, expo = 53\<rparr>) 10 = replicate 10 ''AAAAAA''"
  by (simp add: candidates_def generateCode_zero map_replicate_const)

lemma find_replicate: "find P (replicate n x) = (if P x \<and> 0 < n then Some x else None)"
  by (induction n) auto

lemma pool_query_DeleteLink:
  "pool_query (DeleteLink c) now db =
     (Inr (affected (length (filter (\<lambda>l. code l = c) (links db)))),
      db\<lparr>links := filter (\<lambda>l. code l \<noteq> c) (links db),
         queries := queries db @ [DeleteLink c]\<rparr>)"
  by (simp add: pool_query_def)

lemma pool_query_SelectLink:
  "pool_query (SelectLink c) now db =
     (Inr (selected (filter (\<lambda>l. code l = c) (links db))),
      db\<lparr>queries := queries db @ [SelectLink c]\<rparr>)"
  by (simp add: pool_query_def)

lemma filter_code_present:
  "c \<in> code ` set ls \<Longrightarrow> length (filter (\<lambda>l. code l = c) ls) \<noteq> 0"
  by (auto simp: filter_empty_conv)

lemma filter_other_codes:
  "c \<notin> code ` set ls \<Longrightarrow> filter (\<lambda>l. code l \<noteq> c) ls = ls"
  by (induction ls) auto

lemma filter_remove1_code:
  "distinct (map code ls) \<Longrightarrow> l \<in> set ls \<Longrightarrow>
   filter (\<lambda>r. code r \<noteq> code l) ls = remove1 l ls"
proof (induction ls)
  case Nil
  then show ?case by simp
next
  case (Cons a ls)
  show ?case
  proof (cases "a = l")
    case True
    with Cons.prems have "code l \<notin> code ` set ls" by simp
    then have "filter (\<lambda>r. code r \<noteq> code l) ls = ls" by (rule filter_other_codes)
    with True show ?thesis by simp
  next
    case False
    with Cons.prems have "l \<in> set ls" and "code a \<noteq> code l" by (auto simp: image_iff)
    with Cons False show ?thesis by simp
  qed
qed

lemma delete_present:
  assumes "c \<in> code ` set (links db)"
  shows "delete_api_links c now db =
     (\<lparr>status = 200, body = JsonMessage ''Short URL deleted''\<rparr>,
      db\<lparr>links := filter (\<lambda>l. code l \<noteq> c) (links db),
         queries := queries db @ [DeleteLink c]\<rparr>)"
  using filter_code_present [OF assms]
  by (simp add: delete_api_links_def pool_query_DeleteLink affected_def json_def)

lemma delete_absent:
  assumes "c \<notin> code ` set (links db)"
  shows "delete_api_links c now db =
     (\<lparr>status = 404, body = JsonError ''Short URL not found''\<rparr>,
      db\<lparr>queries := queries db @ [DeleteLink c]\<rparr>)"
  using filter_code_absent [OF assms] filter_other_codes [OF assms]
  by (simp add: delete_api_links_def pool_query_DeleteLink affected_def json_def)

lemma get_stats_absent:
  assumes "c \<notin> code ` set (links db)"
  shows "get_stats req c now db =
     (\<lparr>status = 404, body = Render404 ''Short URL not found''\<rparr>,
      db\<lparr>queries := queries db @ [SelectLink c]\<rparr>)"
  using filter_code_absent [OF assms]
  by (simp add: get_stats_def pool_query_SelectLink selected_def)

lemma links_step_refl: "links_step db db"
  by (simp add: links_step_def)

lemma links_step_queries:
  "links_step (db\<lparr>queries := q\<rparr>) db' = links_step db db'"
  by (simp add: links_step_def new_link_def)

lemma links_step_queries_right:
  "links_step db (db\<lparr>queries := q\<rparr>)"
  by (simp add: links_step_def)

lemma counters_ok_clicked: "counters_ok l \<Longrightarrow> counters_ok (clicked c now l)"
  by (auto simp: counters_ok_def clicked_def)

lemma counters_ok_new_link: "counters_ok (new_link db c u now)"
  by (simp add: counters_ok_def new_link_def)

lemma table_ok_step:
  assumes "links_step db db'" and "table_ok db"
  shows "table_ok db'"
proof -
  from assms(2) have d: "distinct (map link_id (links db))"
    and le: "\<forall>l \<in> set (links db). link_id l \<le> links_id_seq db"
    and ok: "\<forall>l \<in> set (links db). counters_ok l"
    by (simp_all add: table_ok_def primary_key_def)
  from assms(1) have s: "links_id_seq db \<le> links_id_seq db'"
    by (simp add: links_step_def)
  from assms(1) consider
      (same) "links db' = links db"
    | (del) c where "links db' = filter (\<lambda>l. code l \<noteq> c) (links db)"
    | (upd) c now where "links db' = map (clicked c now) (links db)"
    | (ins) c u now where "links db' = links db @ [new_link db c u now]"
        "links_id_seq db' = links_id_seq db + 1"
    unfolding links_step_def by blast
  then show ?thesis
  proof cases
    case same
    with d le ok s show ?thesis
      by (fastforce simp: table_ok_def primary_key_def)
  next
    case del
    have "distinct (map link_id (filter (\<lambda>l. code l \<noteq> c) (links db)))"
      using d by (rule distinct_map_filter)
    with del le ok s show ?thesis
      by (fastforce simp: table_ok_def primary_key_def)
  next
    case upd
    have m: "map link_id (links db') = map link_id (links db)"
      by (simp add: upd o_def)
    have a: "distinct (map link_id (links db'))" using d by (simp only: m)
    have b: "\<forall>l \<in> set (links db'). link_id l \<le> links_id_seq db'"
      using le s by (auto simp: upd)
    have c: "\<forall>l \<in> set (links db'). counters_ok l"
      using ok counters_ok_clicked by (auto simp: upd)
    from a b c show ?thesis by (simp add: table_ok_def primary_key_def)
  next
    case ins
    have "link_id (new_link db c u now) = links_id_seq db + 1"
      by (simp add: new_link_def)
    moreover have "links_id_seq db + 1 \<notin> link_id ` set (links db)"
      using le by fastforce
    ultimately show ?thesis
      using ins d le ok counters_ok_new_link
      by (fastforce simp: table_ok_def primary_key_def)
  qed
qed

lemma grows_step:
  assumes "links_step db db'"
  shows "grows db db'"
proof -
  from assms have s: "links_id_seq db \<le> links_id_seq db'"
    by (simp add: links_step_def)
  from assms consider
      (same) "links db' = links db"
    | (del) c where "links db' = filter (\<lambda>l. code l \<noteq> c) (links db)"
    | (upd) c now where "links db' = map (clicked c now) (links db)"
    | (ins) c u now where "links db' = links db @ [new_link db c u now]"
        "links_id_seq db' = links_id_seq db + 1"
    unfolding links_step_def by blast
  then show ?thesis
  proof cases
    case same
    with s show ?thesis by (auto simp: grows_def)
  next
    case del
    with s show ?thesis by (auto simp: grows_def)
  next
    case upd
    have "\<And>l. clicks l \<le> clicks (clicked c now l)" by (simp add: clicked_def)
    with upd s show ?thesis by (fastforce simp: grows_def)
  next
    case ins
    have "link_id (new_link db c u now) = links_id_seq db + 1"
      by (simp add: new_link_def)
    with ins s show ?thesis by (auto simp: grows_def)
  qed
qed

lemma grows_refl: "grows db db"
  by (auto simp: grows_def)

lemma grows_trans:
  assumes "grows a b" and "grows b c"
  shows "grows a c"
  unfolding grows_def
proof (intro conjI ballI)
  show "links_id_seq a \<le> links_id_seq c"
    using assms by (simp add: grows_def)
next
  fix l'' assume "l'' \<in> set (links c)"
  with assms(2) consider (new) "links_id_seq b < link_id l''"
    | (old) l' where "l' \<in> set (links b)" "link_id l' = link_id l''" "clicks l' \<le> clicks l''"
    unfolding grows_def by blast
  then show "links_id_seq a < link_id l'' \<or>
      (\<exists>l \<in> set (links a). link_id l = link_id l'' \<and> clicks l \<le> clicks l'')"
  proof cases
    case new
    moreover have "links_id_seq a \<le> links_id_seq b" using assms(1) by (simp add: grows_def)
    ultimately show ?thesis by simp
  next
    case old
    from assms(1) old(1) consider (new') "links_id_seq a < link_id l'"
      | (old') l where "l \<in> set (links a)" "link_id l = link_id l'" "clicks l \<le> clicks l'"
      unfolding grows_def by blast
    then show ?thesis
    proof cases
      case new'
      with old show ?thesis by simp
    next
      case old'
      with old have "l \<in> set (links a) \<and> link_id l = link_id l'' \<and> clicks l \<le> clicks l''"
        by simp
      then show ?thesis by blast
    qed
  qed
qed

lemma grows_monotone:
  assumes "grows db db'" and "primary_key db"
    and "l \<in> set (links db)" and "l' \<in> set (links db')" and "link_id l' = link_id l"
  shows "clicks l \<le> clicks l'"
proof -
  from assms(2,3) have "link_id l \<le> links_id_seq db" by (simp add: primary_key_def)
  with assms(1,4,5) obtain l0 where l0: "l0 \<in> set (links db)" "link_id l0 = link_id l'"
      "clicks l0 \<le> clicks l'"
    unfolding grows_def by fastforce
  from assms(2) have "inj_on link_id (set (links db))"
    by (simp add: primary_key_def distinct_map)
  with l0(1,2) assms(3,5) have "l0 = l" by (simp add: inj_on_def)
  with l0(3) show ?thesis by simp
qed

lemma pool_query_SelectLinks:
  "pool_query SelectLinks now db =
     (Inr (selected (order_by_created_at_desc (links db))),
      db\<lparr>queries := queries db @ [SelectLinks]\<rparr>)"
  by (simp add: pool_query_def)

lemma pool_query_SelectLinksLike:
  "pool_query (SelectLinksLike p) now db =
     (Inr (selected (order_by_created_at_desc
        (filter (\<lambda>l. ilike (code l) p \<or> ilike (url l) p) (links db)))),
      db\<lparr>queries := queries db @ [SelectLinksLike p]\<rparr>)"
  by (simp add: pool_query_def)

lemma get_api_links_step: "links_step db (snd (get_api_links search now db))"
  by (cases search)
     (simp_all add: get_api_links_def pool_query_SelectLinks pool_query_SelectLinksLike
        links_step_queries_right)

lemma get_stats_step: "links_step db (snd (get_stats req c now db))"
  by (simp add: get_stats_def pool_query_SelectLink links_step_queries_right
      split: list.splits)

lemma delete_step: "links_step db (snd (delete_api_links c now db))"
proof -
  have "links_step db (db\<lparr>links := filter (\<lambda>l. code l \<noteq> c) (links db),
         queries := queries db @ [DeleteLink c]\<rparr>)"
    unfolding links_step_def by auto
  then show ?thesis
    by (simp add: delete_api_links_def pool_query_DeleteLink)
qed

lemma get_code_step: "links_step db (snd (get_code encodeUrl c now db))"
proof -
  have a: "links_step db (db\<lparr>links := map (clicked c now) (links db),
      queries := queries db @ [SelectUrl c, UpdateClicks c]\<rparr>)"
    unfolding links_step_def by auto
  have b: "\<And>q. links_step db (db\<lparr>queries := q\<rparr>)"
    by (rule links_step_queries_right)
  show ?thesis
    using a b
    by (simp add: get_code_def pool_query_SelectUrl pool_query_UpdateClicks links_step_refl
        split: list.splits)
qed

lemma store_link_step: "links_step db (snd (store_link req u c now db))"
proof (cases "varchar8 c")
  case (Inl e)
  then show ?thesis
    by (simp add: store_link_def pool_query_InsertLink links_step_def)
next
  case (Inr c')
  have "links_step db (db\<lparr>links := links db @ [new_link db c' u now],
      links_id_seq := links_id_seq db + 1,
      queries := queries db @ [InsertLink c u 0 None]\<rparr>)"
    unfolding links_step_def by auto
  then show ?thesis
    using Inr by (simp add: store_link_def pool_query_InsertLink links_step_def)
qed

lemma create_custom_step: "links_step db (snd (snd (create_custom req u cc now g db)))"
proof -
  let ?db = "db\<lparr>queries := queries db @ [SelectOne cc]\<rparr>"
  have "links_step ?db (snd (store_link req u cc now ?db))" by (rule store_link_step)
  then have "links_step db (snd (store_link req u cc now ?db))"
    by (simp only: links_step_queries)
  then show ?thesis
    by (simp add: create_custom_def pool_query_SelectOne links_step_refl
        links_step_queries_right case_prod_beta)
qed

lemma create_random_step: "links_step db (snd (snd (create_random req u now g db)))"
proof (cases "find (\<lambda>c. c \<notin> code ` set (links db)) (candidates g 10)")
  case None
  then show ?thesis by (simp add: create_random_eq links_step_queries_right)
next
  case (Some c)
  let ?db = "db\<lparr>queries := queries db
        @ map SelectOne (takeWhile (\<lambda>c. c \<in> code ` set (links db)) (candidates g 10))
        @ [SelectOne c]\<rparr>"
  have "links_step ?db (snd (store_link req u c now ?db))" by (rule store_link_step)
  then have "links_step db (snd (store_link req u c now ?db))"
    by (simp only: links_step_queries)
  with Some show ?thesis by (simp add: create_random_eq)
qed

lemma post_api_links_step:
  "links_step db (snd (snd (post_api_links isUrl req url_field code_field now g db)))"
  by (simp add: post_api_links_def links_step_refl create_custom_step create_random_step)

lemma route_get_step: "links_step db (snd (route_get encodeUrl c now db))"
  by (simp add: route_get_def links_step_refl get_code_step)

lemma handle_step: "links_step db (snd (snd (handle isUrl encodeUrl rq now g db)))"
  by (cases rq)
     (simp_all add: case_prod_beta get_api_links_step post_api_links_step delete_step
        get_stats_step route_get_step)

lemma serve_table_ok_grows:
  "table_ok db \<Longrightarrow>
   table_ok (snd (snd (serve isUrl encodeUrl reqs g db))) \<and> grows db (snd (snd (serve isUrl encodeUrl reqs g db)))"
proof (induction reqs arbitrary: g db)
  case Nil
  then show ?case by (simp add: grows_refl)
next
  case (Cons a reqs)
  obtain rq now where a: "a = (rq, now)" by (cases a)
  let ?g = "fst (snd (handle isUrl encodeUrl rq now g db))"
  let ?db = "snd (snd (handle isUrl encodeUrl rq now g db))"
  have st: "links_step db ?db" by (rule handle_step)
  have ok: "table_ok ?db" using st Cons.prems by (rule table_ok_step)
  have gr: "grows db ?db" using st by (rule grows_step)
  from Cons.IH [OF ok, of ?g]
  have ih1: "table_ok (snd (snd (serve isUrl encodeUrl reqs ?g ?db)))"
    and ih2: "grows ?db (snd (snd (serve isUrl encodeUrl reqs ?g ?db)))"
    by simp_all
  have s: "snd (snd (serve isUrl encodeUrl (a # reqs) g db)) = snd (snd (serve isUrl encodeUrl reqs ?g ?db))"
    by (simp add: a case_prod_beta)
  show ?case
    unfolding s using ih1 grows_trans [OF gr ih2] by simp
qed

lemma table_ok_initDb: "table_ok initDb"
  by (simp add: table_ok_def primary_key_def initDb_def)

lemma pct_not_backslash: "pct \<noteq> backslash"
  by (simp add: pct_def backslash_def)

lemma like_literal_Cons:
  "p \<noteq> pct \<Longrightarrow> p \<noteq> underscore \<Longrightarrow> p \<noteq> backslash \<Longrightarrow>
   like (p # ps) t = (case t of [] \<Rightarrow> False | c # cs \<Rightarrow> c = p \<and> like ps cs)"
  by simp

lemma like_pct_Cons:
  "like (pct # ps) t = (like ps t \<or> (case t of [] \<Rightarrow> False | c # cs \<Rightarrow> like (pct # ps) cs))"
  using pct_not_backslash by simp

lemma like_literal_prefix:
  "literal s \<Longrightarrow> like (s @ ps) t = (\<exists>r. t = s @ r \<and> like ps r)"
proof (induction s arbitrary: t)
  case Nil
  then show ?case by simp
next
  case (Cons p s)
  from Cons.prems have p: "p \<noteq> pct" "p \<noteq> underscore" "p \<noteq> backslash" and s: "literal s"
    by (simp_all add: literal_def)
  show ?case
  proof (cases t)
    case Nil
    then show ?thesis by (simp add: like_literal_Cons [OF p] del: like.simps(2))
  next
    case (Cons c cs)
    then show ?thesis
      by (auto simp add: like_literal_Cons [OF p] Cons.IH [OF s] simp del: like.simps(2))
  qed
qed

lemma like_pct_only: "like [pct] t"
proof (induction t)
  case Nil
  then show ?case by (simp add: like_pct_Cons del: like.simps(2))
next
  case (Cons c cs)
  then show ?case by (subst like_pct_Cons) simp
qed

lemma like_pct_suffix: "like (pct # ps) t = (\<exists>a r. t = a @ r \<and> like ps r)"
proof (induction t)
  case Nil
  show ?case by (subst like_pct_Cons) simp
next
  case (Cons c cs)
  have "like (pct # ps) (c # cs) = (like ps (c # cs) \<or> like (pct # ps) cs)"
    by (subst like_pct_Cons) simp
  also have "\<dots> = (like ps (c # cs) \<or> (\<exists>a r. cs = a @ r \<and> like ps r))"
    by (simp only: Cons.IH)
  also have "\<dots> = (\<exists>a r. c # cs = a @ r \<and> like ps r)"
  proof
    assume "like ps (c # cs) \<or> (\<exists>a r. cs = a @ r \<and> like ps r)"
    then show "\<exists>a r. c # cs = a @ r \<and> like ps r"
    proof
      assume "like ps (c # cs)"
      then have "c # cs = [] @ (c # cs) \<and> like ps (c # cs)" by simp
      then show ?thesis by blast
    next
      assume "\<exists>a r. cs = a @ r \<and> like ps r"
      then obtain a r where "cs = a @ r" "like ps r" by blast
      then have "c # cs = (c # a) @ r \<and> like ps r" by simp
      then show ?thesis by blast
    qed
  next
    assume "\<exists>a r. c # cs = a @ r \<and> like ps r"
    then obtain a r where ar: "c # cs = a @ r" "like ps r" by blast
    show "like ps (c # cs) \<or> (\<exists>a r. cs = a @ r \<and> like ps r)"
    proof (cases a)
      case Nil
      with ar show ?thesis by simp
    next
      case (Cons x xs)
      with ar have "cs = xs @ r" by simp
      with ar(2) show ?thesis by blast
    qed
  qed
  finally show ?case .
qed

lemma like_contains:
  assumes "literal s"
  shows "like (pct # s @ [pct]) t = sublist s t"
proof -
  have "like (pct # s @ [pct]) t = (\<exists>a r. t = a @ r \<and> like (s @ [pct]) r)"
    using like_pct_suffix [of "s @ [pct]" t] by simp
  also have "\<dots> = (\<exists>a r. t = a @ r \<and> (\<exists>r'. r = s @ r'))"
    by (simp only: like_literal_prefix [OF assms] like_pct_only simp_thms)
  also have "\<dots> = sublist s t"
    by (auto simp: sublist_def)
  finally show ?thesis .
qed

lemma lower_idem_special:
  "lower pct = pct" "lower underscore = underscore" "lower backslash = backslash"
  by (simp_all add: lower_def pct_def underscore_def backslash_def Let_def)

lemma lower_not_special:
  assumes "c \<noteq> pct" and "c \<noteq> underscore" and "c \<noteq> backslash"
  shows "lower c \<noteq> pct \<and> lower c \<noteq> underscore \<and> lower c \<noteq> backslash"
proof (cases "65 \<le> (of_char c :: nat) \<and> (of_char c :: nat) \<le> 90")
  case False
  with assms show ?thesis by (auto simp: lower_def Let_def)
next
  case True
  define n where "n = (of_char c :: nat)"
  have l: "lower c = char_of (n + 32)" using True by (simp add: lower_def n_def Let_def)
  have "(of_char (lower c) :: nat) = (n + 32) mod 256" by (simp add: l)
  moreover have "97 \<le> n + 32" "n + 32 \<le> 122" using True by (simp_all add: n_def)
  ultimately have v: "97 \<le> (of_char (lower c) :: nat)" "(of_char (lower c) :: nat) \<le> 122"
    by simp_all
  have "(of_char pct :: nat) = 37" "(of_char underscore :: nat) = 95"
    "(of_char backslash :: nat) = 92"
    by (simp_all add: pct_def underscore_def backslash_def)
  with v show ?thesis by auto
qed

lemma literal_lower: "literal s \<Longrightarrow> literal (map lower s)"
  using lower_not_special by (auto simp: literal_def)

lemma ilike_contains:
  assumes "literal s"
  shows "ilike t (pct # s @ [pct]) = sublist (map lower s) (map lower t)"
  using like_contains [OF literal_lower [OF assms], of "map lower t"]
  by (simp add: ilike_def lower_idem_special)

lemma sorted_order_by_created_at_desc:
  "sorted_wrt (\<lambda>a b. created_at a \<ge> created_at b) (order_by_created_at_desc ls)"
proof -
  have "sorted (map created_at (sort_key created_at (rev ls)))" by (rule sorted_sort_key)
  then have "sorted_wrt (\<lambda>a b. created_at a \<le> created_at b) (sort_key created_at (rev ls))"
    by (simp add: sorted_map)
  then have "sorted_wrt (\<lambda>a b. created_at b \<le> created_at a)
      (rev (sort_key created_at (rev ls)))"
    by (simp add: sorted_wrt_rev)
  then show ?thesis by (simp add: order_by_created_at_desc_def)
qed

lemma set_order_by_created_at_desc:
  "set (order_by_created_at_desc ls) = set ls
   \<and> length (order_by_created_at_desc ls) = length ls"
  by (simp add: order_by_created_at_desc_def)

lemma get_api_links_all:
  "search = None \<or> search = Some [] \<Longrightarrow>
   get_api_links search now db =
     (\<lparr>status = 200, body = JsonRows (map cols (order_by_created_at_desc (links db)))\<rparr>,
      db\<lparr>queries := queries db @ [SelectLinks]\<rparr>)"
  by (auto simp: get_api_links_def pool_query_SelectLinks selected_def json_def)

lemma get_api_links_search:
  "s \<noteq> [] \<Longrightarrow>
   get_api_links (Some s) now db =
     (\<lparr>status = 200,
       body = JsonRows (map cols (order_by_created_at_desc
         (filter (\<lambda>l. ilike (code l) (pct # s @ [pct]) \<or> ilike (url l) (pct # s @ [pct]))
            (links db))))\<rparr>,
      db\<lparr>queries := queries db @ [SelectLinksLike (pct # s @ [pct])]\<rparr>)"
  by (simp add: get_api_links_def pool_query_SelectLinksLike selected_def json_def)

lemma search_literal_filter:
  assumes "s \<noteq> []" and "literal s"
  shows "fst (get_api_links (Some s) now db) =
     \<lparr>status = 200,
      body = JsonRows (map cols (order_by_created_at_desc
         (filter (\<lambda>l. sublist (map lower s) (map lower (code l))
                      \<or> sublist (map lower s) (map lower (url l))) (links db))))\<rparr>"
  using assms(1) by (simp add: get_api_links_search ilike_contains [OF assms(2)])

lemma search_git_example:
  "fst (get_api_links (Some ''git'') 9
     \<lparr>links = [\<lparr>link_id = 1, code = ''gitlink'', url = ''https://x.com'', clicks = 0,
                last_clicked = None, created_at = 2\<rparr>,
               \<lparr>link_id = 2, code = ''other'', url = ''https://y.com'', clicks = 0,
                last_clicked = None, created_at = 3\<rparr>],
      links_id_seq = 2, queries = []\<rparr>) =
     \<lparr>status = 200,
      body = JsonRows [(''gitlink'', ''https://x.com'', 0, None, 2)]\<rparr>"
  by (simp add: get_api_links_def pool_query_def selected_def json_def cols_def
      order_by_created_at_desc_def ilike_def lower_def Let_def pct_def backslash_def
      underscore_def)

section \<open>The claims of the specification\<close>

text \<open>
  \<^bold>\<open>C1\<close> (as amended). Let \<open>c\<close> be a path segment that the router hands to the handler
  of \<open>/:code\<close> and that is no reserved word: \<open>c\<close> is not empty, is not \<open>_ping\<close>,
  \<open>_test-html\<close> or \<open>health\<close> in any letter case, and is not \<open>api\<close> or \<open>stats\<close>. Then for
  the request \<open>GET /c\<close>:
  \<^item> when a link with code \<open>c\<close> is stored and its \<open>clicks\<close> is below 2147483647, the
    largest value of the column, the answer is 302 with the stored url in the Location
    header, as \<open>encodeUrl\<close> writes it; exactly 1 is added to the \<open>clicks\<close> of that link,
    its \<open>last_clicked\<close> is the current time and every other row is as it was;
  \<^item> N such requests in a row (N at least 1 and at most 2147483647) on a link whose
    \<open>clicks\<close> is 0 all redirect to the stored url and leave \<open>clicks\<close> equal to N and
    \<open>last_clicked\<close> equal to the time of the last of them;
  \<^item> when no link with code \<open>c\<close> is stored the answer is 404.
  The claim as stated, for every stored link, fails at \<open>clicks = 2147483647\<close>: the
  UPDATE raises, the answer is 500 and the row does not change. It also fails for a
  stored code such as \<open>HEALTH\<close>, which the route \<open>/health\<close> answers.
\<close>

theorem redirect_counts_click:
  assumes "reaches_code c"
  shows "(\<forall>l. unique_code db \<and> l \<in> set (links db) \<and> code l = c \<and> clicks l < int4_max \<longrightarrow>
            route_get encodeUrl c now db =
              (\<lparr>status = 302, body = Location (encodeUrl (url l))\<rparr>,
               db\<lparr>links := map (\<lambda>r. if code r = c
                                      then r\<lparr>clicks := clicks r + 1, last_clicked := Some now\<rparr>
                                      else r) (links db),
                  queries := queries db @ [SelectUrl c, UpdateClicks c]\<rparr>))
       \<and> (\<forall>l ts. unique_code db \<and> l \<in> set (links db) \<and> code l = c \<and> clicks l = 0
                  \<and> ts \<noteq> [] \<and> int (length ts) \<le> int4_max \<longrightarrow>
            (case serve isUrl encodeUrl (map (\<lambda>t. (GET_code c, t)) ts) g db of
               (rs, g', db') \<Rightarrow>
                 rs = replicate (length ts) \<lparr>status = 302, body = Location (encodeUrl (url l))\<rparr>
                 \<and> links db' = map (\<lambda>r. if code r = c
                                         then r\<lparr>clicks := int (length ts),
                                                last_clicked := Some (last ts)\<rparr>
                                         else r) (links db)))
       \<and> (c \<notin> code ` set (links db) \<longrightarrow>
            route_get encodeUrl c now db =
              (\<lparr>status = 404, body = Send ''Short URL not found''\<rparr>,
               db\<lparr>queries := queries db @ [SelectUrl c]\<rparr>))"
proof (intro conjI allI impI)
  fix l
  assume h: "unique_code db \<and> l \<in> set (links db) \<and> code l = c \<and> clicks l < int4_max"
  have ck: "clicked c now = (\<lambda>r. if code r = c
          then r\<lparr>clicks := clicks r + 1, last_clicked := Some now\<rparr> else r)"
    by (simp add: fun_eq_iff clicked_def)
  note rg = route_get_code [OF assms, of encodeUrl now db]
  from ck get_code_found [OF reaches_code_not_reserved [OF assms], of db l encodeUrl now] h
  show "route_get encodeUrl c now db =
              (\<lparr>status = 302, body = Location (encodeUrl (url l))\<rparr>,
               db\<lparr>links := map (\<lambda>r. if code r = c
                                      then r\<lparr>clicks := clicks r + 1, last_clicked := Some now\<rparr>
                                      else r) (links db),
                  queries := queries db @ [SelectUrl c, UpdateClicks c]\<rparr>)"
    by (simp add: rg)
next
  fix l and ts :: "timestamp list"
  assume h: "unique_code db \<and> l \<in> set (links db) \<and> code l = c \<and> clicks l = 0
                  \<and> ts \<noteq> [] \<and> int (length ts) \<le> int4_max"
  then have k: "clicks l + int (length ts) \<le> int4_max" by simp
  have only: "\<And>r. r \<in> set (links db) \<Longrightarrow> code r = c \<Longrightarrow> r = l"
  proof -
    fix r assume r: "r \<in> set (links db)" "code r = c"
    have "filter (\<lambda>r. code r = code l) (links db) = [l]"
      using h filter_code_unique [of "links db" l] by (simp add: unique_code_def)
    moreover have "r \<in> set (filter (\<lambda>r. code r = code l) (links db))" using r h by simp
    ultimately show "r = l" by simp
  qed
  have "map (fold (clicked c) ts) (links db) =
        map (\<lambda>r. if code r = c
                  then r\<lparr>clicks := int (length ts), last_clicked := Some (last ts)\<rparr>
                  else r) (links db)"
  proof (rule map_cong [OF refl])
    fix r assume r: "r \<in> set (links db)"
    show "fold (clicked c) ts r =
          (if code r = c then r\<lparr>clicks := int (length ts), last_clicked := Some (last ts)\<rparr> else r)"
    proof (cases "code r = c")
      case True
      with only [OF r] have "r = l" by simp
      with True h show ?thesis by (simp add: fold_clicked_same)
    next
      case False
      then show ?thesis by (simp add: fold_clicked_other)
    qed
  qed
  with serve_redirects [OF assms, of db l ts isUrl encodeUrl g] h k
  show "case serve isUrl encodeUrl (map (\<lambda>t. (GET_code c, t)) ts) g db of
               (rs, g', db') \<Rightarrow>
                 rs = replicate (length ts) \<lparr>status = 302, body = Location (encodeUrl (url l))\<rparr>
                 \<and> links db' = map (\<lambda>r. if code r = c
                                         then r\<lparr>clicks := int (length ts),
                                                last_clicked := Some (last ts)\<rparr>
                                         else r) (links db)"
    by simp
next
  assume "c \<notin> code ` set (links db)"
  with get_code_absent [OF reaches_code_not_reserved [OF assms]]
  show "route_get encodeUrl c now db =
              (\<lparr>status = 404, body = Send ''Short URL not found''\<rparr>,
               db\<lparr>queries := queries db @ [SelectUrl c]\<rparr>)"
    by (simp add: route_get_code [OF assms])
qed

theorem redirect_counts_click_witness:
  "route_get (\<lambda>u. u) ''abc123'' 9
     \<lparr>links = [\<lparr>link_id = 1, code = ''abc123'', url = ''https://x.com'', clicks = 0,
                last_clicked = None, created_at = 2\<rparr>],
      links_id_seq = 1, queries = []\<rparr> =
   (\<lparr>status = 302, body = Location ''https://x.com''\<rparr>,
    \<lparr>links = [\<lparr>link_id = 1, code = ''abc123'', url = ''https://x.com'', clicks = 1,
                last_clicked = Some 9, created_at = 2\<rparr>],
      links_id_seq = 1, queries = [SelectUrl ''abc123'', UpdateClicks ''abc123'']\<rparr>)
   \<and> links (snd (snd (serve (\<lambda>u. True) (\<lambda>u. u)
       (map (\<lambda>t. (GET_code ''abc123'', t)) [5, 6, 7]) (\<lambda>n. \<lparr>mant = 0, expo = 53\<rparr>)
       \<lparr>links = [\<lparr>link_id = 1, code = ''abc123'', url = ''https://x.com'', clicks = 0,
                last_clicked = None, created_at = 2\<rparr>],
        links_id_seq = 1, queries = []\<rparr>))) =
     [\<lparr>link_id = 1, code = ''abc123'', url = ''https://x.com'', clicks = 3,
                last_clicked = Some 7, created_at = 2\<rparr>]
   \<and> fst (route_get (\<lambda>u. u) ''zzzzzz'' 9
     \<lparr>links = [\<lparr>link_id = 1, code = ''abc123'', url = ''https://x.com'', clicks = 0,
                last_clicked = None, created_at = 2\<rparr>],
      links_id_seq = 1, queries = []\<rparr>) = \<lparr>status = 404, body = Send ''Short URL not found''\<rparr>"
proof -
  let ?l = "\<lparr>link_id = 1, code = ''abc123'', url = ''https://x.com'', clicks = 0,
                last_clicked = None, created_at = 2\<rparr>"
  let ?db = "\<lparr>links = [?l], links_id_seq = 1, queries = []\<rparr>"
  let ?g = "\<lambda>n::nat. \<lparr>mant = 0, expo = 53\<rparr>"
  have r: "reaches_code ''abc123''" by (simp add: reaches_code_def lower_def Let_def)
  have z: "reaches_code ''zzzzzz''" by (simp add: reaches_code_def lower_def Let_def)
  have h: "unique_code ?db \<and> ?l \<in> set (links ?db) \<and> code ?l = ''abc123'' \<and> clicks ?l < int4_max"
    by (simp add: unique_code_def int4_max_def)
  have h2: "unique_code ?db \<and> ?l \<in> set (links ?db) \<and> code ?l = ''abc123'' \<and> clicks ?l = 0
      \<and> [5, 6, 7::nat] \<noteq> [] \<and> int (length [5, 6, 7::nat]) \<le> int4_max"
    by (simp add: unique_code_def int4_max_def)
  have h3: "''zzzzzz'' \<notin> code ` set (links ?db)" by simp
  note T = redirect_counts_click [OF r, where encodeUrl = "\<lambda>u. u" and db = ?db and now = 9
      and isUrl = "\<lambda>u. True" and g = ?g]
  note a = T [THEN conjunct1, THEN spec [of _ ?l], THEN mp, OF h]
  note b = T [THEN conjunct2, THEN conjunct1, THEN spec [of _ ?l], THEN spec [of _ "[5, 6, 7]"],
      THEN mp, OF h2]
  note c = redirect_counts_click [OF z, where encodeUrl = "\<lambda>u. u" and db = ?db and now = 9
      and isUrl = "\<lambda>u. True" and g = ?g, THEN conjunct2, THEN conjunct2, THEN mp, OF h3]
  from b have b': "links (snd (snd (serve (\<lambda>u. True) (\<lambda>u. u)
       (map (\<lambda>t. (GET_code ''abc123'', t)) [5, 6, 7]) ?g ?db))) =
      map (\<lambda>r. if code r = ''abc123''
                                         then r\<lparr>clicks := int (length [5, 6, 7::nat]),
                                                last_clicked := Some (last [5, 6, 7])\<rparr>
                                         else r) (links ?db)"
    by (simp add: case_prod_beta)
  show ?thesis
    unfolding a b' c by simp
qed

theorem redirect_counts_click_counterexample:
  "route_get (\<lambda>u. u) ''abc123'' 9
     \<lparr>links = [\<lparr>link_id = 1, code = ''abc123'', url = ''https://x.com'', clicks = 2147483647,
                last_clicked = Some 8, created_at = 2\<rparr>],
      links_id_seq = 1, queries = []\<rparr> =
   (\<lparr>status = 500, body = Send ''Server error''\<rparr>,
    \<lparr>links = [\<lparr>link_id = 1, code = ''abc123'', url = ''https://x.com'', clicks = 2147483647,
                last_clicked = Some 8, created_at = 2\<rparr>],
      links_id_seq = 1, queries = [SelectUrl ''abc123'', UpdateClicks ''abc123'']\<rparr>)"
  by (simp add: route_get_def lower_def Let_def get_code_def pool_query_def selected_def
      int4_max_def server_error_text_def)

text \<open>
  \<^bold>\<open>C2\<close> (as amended). A create request with a well-formed url and no custom code, with
  every draw of the generator a double in \<open>[0, 1)\<close>, on a table whose id sequence has
  not reached 2147483647: the candidates are the codes of up to 10 calls of
  \<open>generateCode()\<close>, each looked up in the table right after it is drawn (the log of
  statements shows one SELECT for every candidate up to the first unused one, then the
  INSERT). The first candidate that is not stored is the code of the new link: it has
  length 6, matches \<open>[A-Za-z0-9]{6,8}\<close>, was not stored before and is stored once
  afterwards, and the answer is 201. When all 10 candidates are stored already, the
  answer is 500 with the message \<open>Unable to generate unique code\<close>, after 10 SELECTs and
  with no row inserted.
  The claim as stated, for every such request, fails when the sequence behind \<open>id\<close>
  is at its last value: an unused candidate is found, the INSERT raises and the answer
  is 500 with no link created.
\<close>

theorem create_generates_unused_code:
  assumes "u \<noteq> []" and "isUrl u" and "\<forall>k. is_double01 (g k)" and "unique_code db"
    and "int (links_id_seq db) < int4_max"
  shows "case post_api_links isUrl req (Some u) None now g db of
     (resp, g', db') \<Rightarrow>
       (case find (\<lambda>c. c \<notin> code ` set (links db)) (candidates g 10) of
          None \<Rightarrow>
            resp = \<lparr>status = 500, body = JsonError ''Unable to generate unique code''\<rparr>
            \<and> links db' = links db
            \<and> queries db' = queries db @ map SelectOne (candidates g 10)
        | Some c \<Rightarrow>
            resp = \<lparr>status = 201,
                    body = JsonCreated c (protocol req @ ''://'' @ host req @ ''/'' @ c) u 0\<rparr>
            \<and> length c = 6 \<and> code_format c \<and> c \<notin> code ` set (links db)
            \<and> links db' = links db @
                 [\<lparr>link_id = links_id_seq db + 1, code = c, url = u, clicks = 0,
                   last_clicked = None, created_at = now\<rparr>]
            \<and> unique_code db'
            \<and> queries db' = queries db
                 @ map SelectOne (takeWhile (\<lambda>c. c \<in> code ` set (links db)) (candidates g 10))
                 @ [SelectOne c, InsertLink c u 0 None])"
proof -
  have p: "post_api_links isUrl req (Some u) None now g db = create_random req u now g db"
    using assms(1,2) by (simp add: post_random truthy_def)
  show ?thesis
  proof (cases "find (\<lambda>c. c \<notin> code ` set (links db)) (candidates g 10)")
    case None
    then show ?thesis by (simp add: p create_random_eq)
  next
    case (Some c)
    then have mem: "c \<in> set (candidates g 10)" and free: "c \<notin> code ` set (links db)"
      by (auto simp: find_Some_iff)
    from candidates_format [OF assms(3) mem] have len: "length c = 6" and al: "list_all alnum c"
      by simp_all
    have fmt: "code_format c" using len al by (simp add: code_format_def)
    let ?db = "db\<lparr>queries := queries db
        @ map SelectOne (takeWhile (\<lambda>c. c \<in> code ` set (links db)) (candidates g 10))
        @ [SelectOne c]\<rparr>"
    have l8: "length c \<le> 8" using len by simp
    have free': "c \<notin> code ` set (links ?db)" using free by simp
    have sq: "int (links_id_seq ?db) < int4_max" using assms(5) by simp
    note st = store_link_ok [OF l8 free' sq, of req u now]
    have uq: "unique_code (db\<lparr>links := links db @ [new_link db c u now]\<rparr>)"
      using assms(4) free by (simp add: unique_code_def new_link_def)
    show ?thesis
      using Some len fmt free uq
      by (simp add: p create_random_eq st new_link_def unique_code_def)
  qed
qed

theorem create_generates_unused_code_witness:
  "fst (post_api_links (\<lambda>u. u = ''https://x.com'') \<lparr>protocol = ''http'', host = ''tiny.io''\<rparr>
          (Some ''https://x.com'') None 9 (\<lambda>n. \<lparr>mant = 0, expo = 53\<rparr>) initDb) =
     \<lparr>status = 201,
      body = JsonCreated ''AAAAAA'' ''http://tiny.io/AAAAAA'' ''https://x.com'' 0\<rparr>
   \<and> fst (post_api_links (\<lambda>u. u = ''https://x.com'') \<lparr>protocol = ''http'', host = ''tiny.io''\<rparr>
          (Some ''https://x.com'') None 9 (\<lambda>n. \<lparr>mant = 0, expo = 53\<rparr>)
          \<lparr>links = [\<lparr>link_id = 1, code = ''AAAAAA'', url = ''https://y.com'', clicks = 0,
                     last_clicked = None, created_at = 2\<rparr>],
           links_id_seq = 1, queries = []\<rparr>) =
     \<lparr>status = 500, body = JsonError ''Unable to generate unique code''\<rparr>"
proof -
  let ?U = "\<lambda>u. u = ''https://x.com''"
  let ?req = "\<lparr>protocol = ''http'', host = ''tiny.io''\<rparr>"
  let ?db = "\<lparr>links = [\<lparr>link_id = 1, code = ''AAAAAA'', url = ''https://y.com'', clicks = 0,
                     last_clicked = None, created_at = 2\<rparr>],
           links_id_seq = 1, queries = []\<rparr>"
  have h1: "''https://x.com'' \<noteq> []" by simp
  have h2: "?U ''https://x.com''" by simp
  have h3: "\<forall>k. is_double01 ((\<lambda>n. \<lparr>mant = 0, expo = 53\<rparr>) k)"
    by (simp add: is_double01_def)
  have s4: "int (links_id_seq initDb) < int4_max" by (simp add: initDb_def int4_max_def)
  have s5: "int (links_id_seq ?db) < int4_max" by (simp add: int4_max_def)
  have h4: "unique_code initDb" by (simp add: unique_code_def initDb_def)
  have h5: "unique_code ?db" by (simp add: unique_code_def)
  from create_generates_unused_code [where isUrl = ?U and u = "''https://x.com''"
      and g = "\<lambda>n. \<lparr>mant = 0, expo = 53\<rparr>" and db = initDb and req = ?req and now = 9, OF h1 h2 h3 h4 s4]
  have a: "fst (post_api_links ?U ?req (Some ''https://x.com'') None 9 (\<lambda>n. \<lparr>mant = 0, expo = 53\<rparr>) initDb) =
     \<lparr>status = 201,
      body = JsonCreated ''AAAAAA'' ''http://tiny.io/AAAAAA'' ''https://x.com'' 0\<rparr>"
    by (simp add: candidates_zero find_replicate initDb_def case_prod_beta)
  from create_generates_unused_code [where isUrl = ?U and u = "''https://x.com''"
      and g = "\<lambda>n. \<lparr>mant = 0, expo = 53\<rparr>" and db = ?db and req = ?req and now = 9, OF h1 h2 h3 h5 s5]
  have b: "fst (post_api_links ?U ?req (Some ''https://x.com'') None 9 (\<lambda>n. \<lparr>mant = 0, expo = 53\<rparr>) ?db) =
     \<lparr>status = 500, body = JsonError ''Unable to generate unique code''\<rparr>"
    by (simp add: candidates_zero find_replicate case_prod_beta)
  from a b show ?thesis by (rule conjI)
qed

theorem create_generates_unused_code_counterexample:
  "post_api_links (\<lambda>u. u = ''https://x.com'') \<lparr>protocol = ''http'', host = ''tiny.io''\<rparr>
          (Some ''https://x.com'') None 9 (\<lambda>n. \<lparr>mant = 0, expo = 53\<rparr>)
          \<lparr>links = [], links_id_seq = 2147483647, queries = []\<rparr> =
     (\<lparr>status = 500, body = JsonError ''Server error''\<rparr>,
      (\<lambda>n. \<lparr>mant = 0, expo = 53\<rparr>),
      \<lparr>links = [], links_id_seq = 2147483647,
       queries = [SelectOne ''AAAAAA'', InsertLink ''AAAAAA'' ''https://x.com'' 0 None]\<rparr>)"
proof -
  have "find_code 10 9 (\<lambda>n. \<lparr>mant = 0, expo = 53\<rparr>)
        \<lparr>links = [], links_id_seq = 2147483647, queries = []\<rparr> =
      (Inr (Some ''AAAAAA''), (\<lambda>n. \<lparr>mant = 0, expo = 53\<rparr>),
       \<lparr>links = [], links_id_seq = 2147483647, queries = [SelectOne ''AAAAAA'']\<rparr>)"
    by (simp add: find_code_eq candidates_zero find_replicate)
  then show ?thesis
    by (simp add: post_api_links_def truthy_def create_random_def store_link_def
        pool_query_def varchar8_def json_def server_error_json_def int4_max_def)
qed

text \<open>
  \<^bold>\<open>C3\<close> (as amended). Create answers 400 and sends no statement to the table
  \<^item> whenever the url is missing, empty or rejected by the url check, whatever the code
    field holds, and
  \<^item> whenever the url is well-formed and the code field is a non-empty string that does
    not match \<open>[A-Za-z0-9]{6,8}\<close>.
  The claim as stated, for every supplied code that does not match, fails at the empty
  string: \<open>if (customCode)\<close> sends it down the branch of the generated codes, and the
  link is created.
\<close>

theorem create_validation:
  "(url_field = None \<or> url_field = Some [] \<or> (\<exists>u. url_field = Some u \<and> \<not> isUrl u) \<longrightarrow>
      post_api_links isUrl req url_field code_field now g db =
        (\<lparr>status = 400, body = JsonError ''Invalid or missing URL''\<rparr>, g, db))
   \<and> (\<forall>u cc. url_field = Some u \<and> u \<noteq> [] \<and> isUrl u
               \<and> code_field = Some cc \<and> cc \<noteq> [] \<and> \<not> code_format cc \<longrightarrow>
      post_api_links isUrl req url_field code_field now g db =
        (\<lparr>status = 400, body = JsonError ''Code must be 6-8 chars [A-Za-z0-9]''\<rparr>, g, db))"
proof (intro conjI impI allI)
  assume "url_field = None \<or> url_field = Some [] \<or> (\<exists>u. url_field = Some u \<and> \<not> isUrl u)"
  then show "post_api_links isUrl req url_field code_field now g db =
        (\<lparr>status = 400, body = JsonError ''Invalid or missing URL''\<rparr>, g, db)"
    by (rule post_invalid_url)
next
  fix u cc
  assume "url_field = Some u \<and> u \<noteq> [] \<and> isUrl u
               \<and> code_field = Some cc \<and> cc \<noteq> [] \<and> \<not> code_format cc"
  then show "post_api_links isUrl req url_field code_field now g db =
        (\<lparr>status = 400, body = JsonError ''Code must be 6-8 chars [A-Za-z0-9]''\<rparr>, g, db)"
    by (simp add: post_custom create_custom_bad_format)
qed

theorem create_validation_witness:
  "post_api_links (\<lambda>u. u = ''https://x.com'') \<lparr>protocol = ''http'', host = ''tiny.io''\<rparr>
          (Some ''not a url'') (Some ''abc123'') 9 (\<lambda>n. \<lparr>mant = 0, expo = 53\<rparr>) initDb =
     (\<lparr>status = 400, body = JsonError ''Invalid or missing URL''\<rparr>, (\<lambda>n. \<lparr>mant = 0, expo = 53\<rparr>), initDb)
   \<and> post_api_links (\<lambda>u. u = ''https://x.com'') \<lparr>protocol = ''http'', host = ''tiny.io''\<rparr>
          (Some ''https://x.com'') (Some ''ab-12'') 9 (\<lambda>n. \<lparr>mant = 0, expo = 53\<rparr>) initDb =
     (\<lparr>status = 400, body = JsonError ''Code must be 6-8 chars [A-Za-z0-9]''\<rparr>, (\<lambda>n. \<lparr>mant = 0, expo = 53\<rparr>), initDb)"
proof -
  let ?U = "\<lambda>u. u = ''https://x.com''"
  let ?req = "\<lparr>protocol = ''http'', host = ''tiny.io''\<rparr>"
  have h1: "Some ''not a url'' = None \<or> Some ''not a url'' = Some []
      \<or> (\<exists>u. Some ''not a url'' = Some u \<and> \<not> ?U u)" by simp
  have h2: "Some ''https://x.com'' = Some ''https://x.com'' \<and> ''https://x.com'' \<noteq> []
      \<and> ?U ''https://x.com'' \<and> Some ''ab-12'' = Some ''ab-12'' \<and> ''ab-12'' \<noteq> []
      \<and> \<not> code_format ''ab-12''"
    by (simp add: code_format_def)
  note a = create_validation [of "Some ''not a url''" ?U ?req "Some ''abc123''" 9 "\<lambda>n. \<lparr>mant = 0, expo = 53\<rparr>" initDb,
      THEN conjunct1, THEN mp, OF h1]
  note b = create_validation [of "Some ''https://x.com''" ?U ?req "Some ''ab-12''" 9 "\<lambda>n. \<lparr>mant = 0, expo = 53\<rparr>" initDb,
      THEN conjunct2, THEN spec [of _ "''https://x.com''"], THEN spec [of _ "''ab-12''"],
      THEN mp, OF h2]
  from a b show ?thesis by (rule conjI)
qed

theorem create_validation_counterexample:
  "\<not> code_format []
   \<and> post_api_links (\<lambda>u. u = ''https://x.com'') \<lparr>protocol = ''http'', host = ''tiny.io''\<rparr>
          (Some ''https://x.com'') (Some []) 9 (\<lambda>n. \<lparr>mant = 0, expo = 53\<rparr>) initDb =
     (\<lparr>status = 201,
       body = JsonCreated ''AAAAAA'' ''http://tiny.io/AAAAAA'' ''https://x.com'' 0\<rparr>,
      (\<lambda>n. \<lparr>mant = 0, expo = 53\<rparr>),
      \<lparr>links = [\<lparr>link_id = 1, code = ''AAAAAA'', url = ''https://x.com'', clicks = 0,
                 last_clicked = None, created_at = 9\<rparr>],
       links_id_seq = 1,
       queries = [SelectOne ''AAAAAA'', InsertLink ''AAAAAA'' ''https://x.com'' 0 None]\<rparr>)"
proof -
  have "find_code 10 9 (\<lambda>n. \<lparr>mant = 0, expo = 53\<rparr>) initDb =
      (Inr (Some ''AAAAAA''), (\<lambda>n. \<lparr>mant = 0, expo = 53\<rparr>), initDb\<lparr>queries := [SelectOne ''AAAAAA'']\<rparr>)"
    by (simp add: find_code_eq candidates_zero initDb_def find_replicate)
  then show ?thesis
    by (simp add: post_api_links_def truthy_def create_random_def store_link_def
        pool_query_def varchar8_def json_def initDb_def code_format_def int4_max_def)
qed

text \<open>
  \<^bold>\<open>C4\<close> (as amended). A create request with a well-formed url and a custom code
  matching \<open>[A-Za-z0-9]{6,8}\<close>: when a link with that code is stored, the answer is 409
  and the table is as before (only the log of statements has the SELECT more); when none
  is stored and the id sequence has not reached 2147483647, the answer is 201, the link
  is added, and every later create request with a well-formed url and the same code on
  the resulting table is answered 409.
  The claim as stated, that create succeeds whenever the code is not taken, fails when
  the sequence behind \<open>id\<close> is at its last value: the INSERT raises and the answer is
  500.
\<close>

theorem custom_code_conflict:
  assumes "u \<noteq> []" and "isUrl u" and "code_format cc"
  shows "(cc \<in> code ` set (links db) \<longrightarrow>
            post_api_links isUrl req (Some u) (Some cc) now g db =
              (\<lparr>status = 409, body = JsonError ''Code already in use''\<rparr>, g,
               db\<lparr>queries := queries db @ [SelectOne cc]\<rparr>))
       \<and> (cc \<notin> code ` set (links db) \<and> int (links_id_seq db) < int4_max \<longrightarrow>
            (case post_api_links isUrl req (Some u) (Some cc) now g db of
               (resp, g', db') \<Rightarrow>
                 resp = \<lparr>status = 201,
                         body = JsonCreated cc (protocol req @ ''://'' @ host req @ ''/'' @ cc) u 0\<rparr>
                 \<and> links db' = links db @
                      [\<lparr>link_id = links_id_seq db + 1, code = cc, url = u, clicks = 0,
                        last_clicked = None, created_at = now\<rparr>]
                 \<and> (\<forall>req2 u2 now2 g2. u2 \<noteq> [] \<and> isUrl u2 \<longrightarrow>
                      post_api_links isUrl req2 (Some u2) (Some cc) now2 g2 db' =
                        (\<lparr>status = 409, body = JsonError ''Code already in use''\<rparr>, g2,
                         db'\<lparr>queries := queries db' @ [SelectOne cc]\<rparr>))))"
proof (intro conjI impI)
  have ne: "cc \<noteq> []" using assms(3) by (rule code_format_nonempty)
  {
    assume "cc \<in> code ` set (links db)"
    with assms ne show "post_api_links isUrl req (Some u) (Some cc) now g db =
              (\<lparr>status = 409, body = JsonError ''Code already in use''\<rparr>, g,
               db\<lparr>queries := queries db @ [SelectOne cc]\<rparr>)"
      by (simp add: post_custom create_custom_taken)
  next
    assume fs: "cc \<notin> code ` set (links db) \<and> int (links_id_seq db) < int4_max"
    then have free: "cc \<notin> code ` set (links db)"
      and sq: "int (links_id_seq db) < int4_max" by simp_all
    let ?db' = "db\<lparr>links := links db @ [new_link db cc u now],
         links_id_seq := links_id_seq db + 1,
         queries := queries db @ [SelectOne cc, InsertLink cc u 0 None]\<rparr>"
    have first: "post_api_links isUrl req (Some u) (Some cc) now g db =
       (\<lparr>status = 201, body = JsonCreated cc (protocol req @ ''://'' @ host req @ ''/'' @ cc) u 0\<rparr>,
        g, ?db')"
      using assms ne free sq by (simp add: post_custom create_custom_free)
    have taken: "cc \<in> code ` set (links ?db')" by (simp add: new_link_def)
    have again: "\<forall>req2 u2 now2 g2. u2 \<noteq> [] \<and> isUrl u2 \<longrightarrow>
                      post_api_links isUrl req2 (Some u2) (Some cc) now2 g2 ?db' =
                        (\<lparr>status = 409, body = JsonError ''Code already in use''\<rparr>, g2,
                         ?db'\<lparr>queries := queries ?db' @ [SelectOne cc]\<rparr>)"
      using ne create_custom_taken [OF assms(3) taken] by (simp add: post_custom)
    show "case post_api_links isUrl req (Some u) (Some cc) now g db of
               (resp, g', db') \<Rightarrow>
                 resp = \<lparr>status = 201,
                         body = JsonCreated cc (protocol req @ ''://'' @ host req @ ''/'' @ cc) u 0\<rparr>
                 \<and> links db' = links db @
                      [\<lparr>link_id = links_id_seq db + 1, code = cc, url = u, clicks = 0,
                        last_clicked = None, created_at = now\<rparr>]
                 \<and> (\<forall>req2 u2 now2 g2. u2 \<noteq> [] \<and> isUrl u2 \<longrightarrow>
                      post_api_links isUrl req2 (Some u2) (Some cc) now2 g2 db' =
                        (\<lparr>status = 409, body = JsonError ''Code already in use''\<rparr>, g2,
                         db'\<lparr>queries := queries db' @ [SelectOne cc]\<rparr>))"
      unfolding first using again by (simp add: new_link_def)
  }
qed

theorem custom_code_conflict_witness:
  "fst (post_api_links (\<lambda>u. u = ''https://x.com'') \<lparr>protocol = ''http'', host = ''tiny.io''\<rparr>
          (Some ''https://x.com'') (Some ''abc123'') 9 (\<lambda>n. \<lparr>mant = 0, expo = 53\<rparr>) initDb) =
     \<lparr>status = 201,
      body = JsonCreated ''abc123'' ''http://tiny.io/abc123'' ''https://x.com'' 0\<rparr>
   \<and> fst (post_api_links (\<lambda>u. u = ''https://x.com'') \<lparr>protocol = ''http'', host = ''tiny.io''\<rparr>
          (Some ''https://x.com'') (Some ''abc123'') 10 (\<lambda>n. \<lparr>mant = 0, expo = 53\<rparr>)
          (snd (snd (post_api_links (\<lambda>u. u = ''https://x.com'')
             \<lparr>protocol = ''http'', host = ''tiny.io''\<rparr>
             (Some ''https://x.com'') (Some ''abc123'') 9 (\<lambda>n. \<lparr>mant = 0, expo = 53\<rparr>) initDb)))) =
     \<lparr>status = 409, body = JsonError ''Code already in use''\<rparr>"
proof -
  let ?U = "\<lambda>u. u = ''https://x.com''"
  let ?req = "\<lparr>protocol = ''http'', host = ''tiny.io''\<rparr>"
  have h1: "''https://x.com'' \<noteq> []" by simp
  have h2: "?U ''https://x.com''" by simp
  have h3: "code_format ''abc123''" by (simp add: code_format_def alnum_def)
  have free: "''abc123'' \<notin> code ` set (links initDb) \<and> int (links_id_seq initDb) < int4_max"
    by (simp add: initDb_def int4_max_def)
  note T = custom_code_conflict [where isUrl = ?U and u = "''https://x.com''"
      and cc = "''abc123''" and db = initDb and req = ?req and now = 9 and g = "\<lambda>n. \<lparr>mant = 0, expo = 53\<rparr>",
      OF h1 h2 h3, THEN conjunct2, THEN mp, OF free]
  from T have a: "fst (post_api_links ?U ?req (Some ''https://x.com'') (Some ''abc123'') 9 (\<lambda>n. \<lparr>mant = 0, expo = 53\<rparr>) initDb) =
     \<lparr>status = 201,
      body = JsonCreated ''abc123'' ''http://tiny.io/abc123'' ''https://x.com'' 0\<rparr>"
    by (simp add: case_prod_beta)
  from T have "\<forall>req2 u2 now2 g2. u2 \<noteq> [] \<and> ?U u2 \<longrightarrow>
     fst (post_api_links ?U req2 (Some u2) (Some ''abc123'') now2 g2
       (snd (snd (post_api_links ?U ?req (Some ''https://x.com'') (Some ''abc123'') 9 (\<lambda>n. \<lparr>mant = 0, expo = 53\<rparr>) initDb)))) =
     \<lparr>status = 409, body = JsonError ''Code already in use''\<rparr>"
    by (simp add: case_prod_beta)
  then have b: "fst (post_api_links ?U ?req (Some ''https://x.com'') (Some ''abc123'') 10 (\<lambda>n. \<lparr>mant = 0, expo = 53\<rparr>)
       (snd (snd (post_api_links ?U ?req (Some ''https://x.com'') (Some ''abc123'') 9 (\<lambda>n. \<lparr>mant = 0, expo = 53\<rparr>) initDb)))) =
     \<lparr>status = 409, body = JsonError ''Code already in use''\<rparr>"
    using h1 h2 by blast
  from a b show ?thesis by (rule conjI)
qed

theorem custom_code_conflict_counterexample:
  "post_api_links (\<lambda>u. u = ''https://x.com'') \<lparr>protocol = ''http'', host = ''tiny.io''\<rparr>
          (Some ''https://x.com'') (Some ''abc123'') 9 (\<lambda>n. \<lparr>mant = 0, expo = 53\<rparr>)
          \<lparr>links = [], links_id_seq = 2147483647, queries = []\<rparr> =
     (\<lparr>status = 500, body = JsonError ''Server error''\<rparr>,
      (\<lambda>n. \<lparr>mant = 0, expo = 53\<rparr>),
      \<lparr>links = [], links_id_seq = 2147483647,
       queries = [SelectOne ''abc123'', InsertLink ''abc123'' ''https://x.com'' 0 None]\<rparr>)"
  by (simp add: post_api_links_def truthy_def create_custom_def store_link_def
      pool_query_def varchar8_def json_def server_error_json_def int4_max_def
      code_format_def alnum_def selected_def)

text \<open>
  \<^bold>\<open>C5\<close>. Whenever create answers 201, the body is \<open>{code, fullUrl, url, clicks}\<close> with
  \<open>fullUrl = protocol + "://" + host + "/" + code\<close> and \<open>clicks = 0\<close>, and the table
  afterwards is the table before followed by exactly one new row, with that code and url,
  \<open>clicks = 0\<close> and \<open>last_clicked\<close> null.
\<close>

theorem create_success_response:
  "status (fst (post_api_links isUrl req url_field code_field now g db)) = 201 \<longrightarrow>
     (\<exists>u c. url_field = Some u
        \<and> fst (post_api_links isUrl req url_field code_field now g db) =
            \<lparr>status = 201,
             body = JsonCreated c (protocol req @ ''://'' @ host req @ ''/'' @ c) u 0\<rparr>
        \<and> links (snd (snd (post_api_links isUrl req url_field code_field now g db))) =
            links db @ [\<lparr>link_id = links_id_seq db + 1, code = c, url = u, clicks = 0,
                         last_clicked = None, created_at = now\<rparr>])"
proof
  let ?r = "post_api_links isUrl req url_field code_field now g db"
  assume ok: "status (fst ?r) = 201"
  have valid: "\<not> (url_field = None \<or> url_field = Some [] \<or> (\<exists>u. url_field = Some u \<and> \<not> isUrl u))"
  proof
    assume "url_field = None \<or> url_field = Some [] \<or> (\<exists>u. url_field = Some u \<and> \<not> isUrl u)"
    from post_invalid_url [OF this, of req code_field now g db] ok show False by simp
  qed
  then obtain u where u: "url_field = Some u" "u \<noteq> []" "isUrl u"
    by (cases url_field) auto
  have goal: "\<exists>c. fst ?r =
            \<lparr>status = 201,
             body = JsonCreated c (protocol req @ ''://'' @ host req @ ''/'' @ c) u 0\<rparr>
        \<and> links (snd (snd ?r)) = links db @ [new_link db c u now]"
  proof (cases "truthy code_field")
    case True
    then obtain cc where cc: "code_field = Some cc" "cc \<noteq> []"
      by (cases code_field) (auto simp: truthy_def)
    have r: "?r = create_custom req u cc now g db"
      using u cc by (simp add: post_custom)
    have fmt: "code_format cc"
    proof (rule ccontr)
      assume "\<not> code_format cc"
      from create_custom_bad_format [OF this, of req u now g db] ok r show False by simp
    qed
    have free: "cc \<notin> code ` set (links db)"
    proof
      assume "cc \<in> code ` set (links db)"
      from create_custom_taken [OF fmt this, of req u now g] ok r show False by simp
    qed
    let ?db = "db\<lparr>queries := queries db @ [SelectOne cc]\<rparr>"
    note cs = create_custom_store [OF fmt free, of req u now g]
    have s: "status (fst (store_link req u cc now ?db)) = 201"
      using ok r by (simp add: cs)
    have ns: "CHR '' '' \<notin> set cc" using fmt by (rule code_format_no_space)
    from store_link_201 [OF s ns] r show ?thesis
      by (simp add: cs new_link_def)
  next
    case False
    have r: "?r = create_random req u now g db"
      using u False by (simp add: post_random)
    show ?thesis
    proof (cases "find (\<lambda>c. c \<notin> code ` set (links db)) (candidates g 10)")
      case None
      with ok r show ?thesis by (simp add: create_random_eq)
    next
      case (Some c)
      let ?db = "db\<lparr>queries := queries db
        @ map SelectOne (takeWhile (\<lambda>c. c \<in> code ` set (links db)) (candidates g 10))
        @ [SelectOne c]\<rparr>"
      from Some have "c \<in> set (candidates g 10)" by (auto simp: find_Some_iff)
      then have ns: "CHR '' '' \<notin> set c" by (rule candidates_no_space)
      have s: "status (fst (store_link req u c now ?db)) = 201"
        using ok r Some by (simp add: create_random_eq)
      from store_link_201 [OF s ns] r Some show ?thesis
        by (simp add: create_random_eq new_link_def)
    qed
  qed
  then show "\<exists>u c. url_field = Some u
        \<and> fst ?r =
            \<lparr>status = 201,
             body = JsonCreated c (protocol req @ ''://'' @ host req @ ''/'' @ c) u 0\<rparr>
        \<and> links (snd (snd ?r)) =
            links db @ [\<lparr>link_id = links_id_seq db + 1, code = c, url = u, clicks = 0,
                         last_clicked = None, created_at = now\<rparr>]"
    using u(1) by (auto simp: new_link_def)
qed

theorem create_success_response_witness:
  "status (fst (post_api_links (\<lambda>u. u = ''https://x.com'') \<lparr>protocol = ''http'', host = ''tiny.io''\<rparr>
          (Some ''https://x.com'') (Some ''abc123'') 9 (\<lambda>n. \<lparr>mant = 0, expo = 53\<rparr>) initDb)) = 201
   \<and> (\<exists>c. links (snd (snd (post_api_links (\<lambda>u. u = ''https://x.com'')
          \<lparr>protocol = ''http'', host = ''tiny.io''\<rparr>
          (Some ''https://x.com'') (Some ''abc123'') 9 (\<lambda>n. \<lparr>mant = 0, expo = 53\<rparr>) initDb))) =
        [\<lparr>link_id = 1, code = c, url = ''https://x.com'', clicks = 0,
          last_clicked = None, created_at = 9\<rparr>])"
proof -
  let ?U = "\<lambda>u. u = ''https://x.com''"
  let ?req = "\<lparr>protocol = ''http'', host = ''tiny.io''\<rparr>"
  have s: "status (fst (post_api_links ?U ?req (Some ''https://x.com'') (Some ''abc123'') 9 (\<lambda>n. \<lparr>mant = 0, expo = 53\<rparr>) initDb)) = 201"
    by (simp add: post_api_links_def truthy_def create_custom_def store_link_def
        pool_query_def varchar8_def json_def initDb_def code_format_def alnum_def selected_def
        int4_max_def)
  from create_success_response [of ?U ?req "Some ''https://x.com''" "Some ''abc123''" 9 "\<lambda>n. \<lparr>mant = 0, expo = 53\<rparr>" initDb,
      THEN mp, OF s]
  have "\<exists>c. links (snd (snd (post_api_links ?U ?req (Some ''https://x.com'') (Some ''abc123'') 9 (\<lambda>n. \<lparr>mant = 0, expo = 53\<rparr>) initDb))) =
        [\<lparr>link_id = 1, code = c, url = ''https://x.com'', clicks = 0,
          last_clicked = None, created_at = 9\<rparr>]"
    by (auto simp: initDb_def)
  with s show ?thesis by (rule conjI)
qed

text \<open>
  \<^bold>\<open>C6\<close> (as amended). For every table, also one that holds a link with that code:
  \<open>GET /api\<close> and \<open>GET /stats\<close> are answered 404, and \<open>GET /health\<close> is answered 200 by
  the health route, which is registered before \<open>/:code\<close>; in all three cases the table,
  the sequence and the log of statements are as before, so nothing was read and nothing
  was written. The handler of \<open>/:code\<close> itself answers 404 for each of the three codes,
  again without a statement, whenever it is the one that runs.
  The claim as stated fails for \<open>health\<close>: the request is answered 200, not 404.
\<close>

theorem reserved_codes_not_found:
  "route_get encodeUrl ''api'' now db = (\<lparr>status = 404, body = Send ''Not found''\<rparr>, db)
   \<and> route_get encodeUrl ''stats'' now db = (\<lparr>status = 404, body = Send ''Not found''\<rparr>, db)
   \<and> route_get encodeUrl ''health'' now db = (\<lparr>status = 200, body = JsonHealth\<rparr>, db)
   \<and> get_code encodeUrl ''api'' now db = (\<lparr>status = 404, body = Send ''Not found''\<rparr>, db)
   \<and> get_code encodeUrl ''stats'' now db = (\<lparr>status = 404, body = Send ''Not found''\<rparr>, db)
   \<and> get_code encodeUrl ''health'' now db = (\<lparr>status = 404, body = Send ''Not found''\<rparr>, db)"
  by (simp add: route_get_def lower_def Let_def get_code_def)

theorem reserved_codes_not_found_witness:
  "route_get (\<lambda>u. u) ''stats'' 9
     \<lparr>links = [\<lparr>link_id = 1, code = ''stats'', url = ''https://x.com'', clicks = 0,
                last_clicked = None, created_at = 2\<rparr>],
      links_id_seq = 1, queries = []\<rparr> =
   (\<lparr>status = 404, body = Send ''Not found''\<rparr>,
    \<lparr>links = [\<lparr>link_id = 1, code = ''stats'', url = ''https://x.com'', clicks = 0,
                last_clicked = None, created_at = 2\<rparr>],
      links_id_seq = 1, queries = []\<rparr>)"
  by (rule reserved_codes_not_found [THEN conjunct2, THEN conjunct1])

theorem reserved_codes_not_found_counterexample:
  "route_get (\<lambda>u. u) ''health'' 9
     \<lparr>links = [\<lparr>link_id = 1, code = ''health'', url = ''https://x.com'', clicks = 0,
                last_clicked = None, created_at = 2\<rparr>],
      links_id_seq = 1, queries = []\<rparr> =
   (\<lparr>status = 200, body = JsonHealth\<rparr>,
    \<lparr>links = [\<lparr>link_id = 1, code = ''health'', url = ''https://x.com'', clicks = 0,
                last_clicked = None, created_at = 2\<rparr>],
      links_id_seq = 1, queries = []\<rparr>)"
  by (simp add: route_get_def lower_def Let_def)

text \<open>
  \<^bold>\<open>C7\<close>. Start from the empty table that \<open>initDb\<close> creates and serve any sequence of
  create, list, delete, stats and redirect requests; then serve any further sequence.
  Every link stored after the first sequence has \<open>last_clicked\<close> null exactly when its
  \<open>clicks\<close> is 0, and a link that is still stored after the second sequence (the row
  with the same \<open>id\<close>) has at least the \<open>clicks\<close> it had.
\<close>

theorem counters_invariant:
  "case serve isUrl encodeUrl reqs1 g1 initDb of
     (rs1, g2, db1) \<Rightarrow>
       (case serve isUrl encodeUrl reqs2 g2 db1 of
          (rs2, g3, db2) \<Rightarrow>
            (\<forall>l \<in> set (links db1). last_clicked l = None \<longleftrightarrow> clicks l = 0)
            \<and> (\<forall>l \<in> set (links db1). \<forall>l' \<in> set (links db2).
                  link_id l' = link_id l \<longrightarrow> clicks l \<le> clicks l'))"
proof -
  let ?g2 = "fst (snd (serve isUrl encodeUrl reqs1 g1 initDb))"
  let ?db1 = "snd (snd (serve isUrl encodeUrl reqs1 g1 initDb))"
  let ?db2 = "snd (snd (serve isUrl encodeUrl reqs2 ?g2 ?db1))"
  from serve_table_ok_grows [OF table_ok_initDb, of isUrl encodeUrl reqs1 g1]
  have ok1: "table_ok ?db1" by simp
  from serve_table_ok_grows [OF ok1, of isUrl encodeUrl reqs2 ?g2]
  have gr: "grows ?db1 ?db2" by simp
  have pk: "primary_key ?db1" using ok1 by (simp add: table_ok_def)
  have a: "\<forall>l \<in> set (links ?db1). last_clicked l = None \<longleftrightarrow> clicks l = 0"
    using ok1 by (simp add: table_ok_def counters_ok_def)
  have b: "\<forall>l \<in> set (links ?db1). \<forall>l' \<in> set (links ?db2).
                  link_id l' = link_id l \<longrightarrow> clicks l \<le> clicks l'"
    using grows_monotone [OF gr pk] by blast
  from a b show ?thesis by (simp add: case_prod_beta)
qed

theorem counters_invariant_witness:
  "last_clicked (hd (links (snd (snd (serve (\<lambda>u. u = ''https://x.com'') (\<lambda>u. u)
      [(POST_api_links \<lparr>protocol = ''http'', host = ''tiny.io''\<rparr>
          (Some ''https://x.com'') (Some ''abc123''), 5),
       (GET_code ''abc123'', 6)] (\<lambda>n. \<lparr>mant = 0, expo = 53\<rparr>) initDb))))) \<noteq> None
   \<and> clicks (hd (links (snd (snd (serve (\<lambda>u. u = ''https://x.com'') (\<lambda>u. u)
      [(POST_api_links \<lparr>protocol = ''http'', host = ''tiny.io''\<rparr>
          (Some ''https://x.com'') (Some ''abc123''), 5),
       (GET_code ''abc123'', 6)] (\<lambda>n. \<lparr>mant = 0, expo = 53\<rparr>) initDb)))))
     \<le> clicks (hd (links (snd (snd (serve (\<lambda>u. u = ''https://x.com'') (\<lambda>u. u)
      [(GET_code ''abc123'', 7), (GET_api_links None, 8)] (\<lambda>n. \<lparr>mant = 0, expo = 53\<rparr>)
      (snd (snd (serve (\<lambda>u. u = ''https://x.com'') (\<lambda>u. u)
      [(POST_api_links \<lparr>protocol = ''http'', host = ''tiny.io''\<rparr>
          (Some ''https://x.com'') (Some ''abc123''), 5),
       (GET_code ''abc123'', 6)] (\<lambda>n. \<lparr>mant = 0, expo = 53\<rparr>) initDb))))))))"
proof -
  let ?U = "\<lambda>u. u = ''https://x.com''"
  let ?reqs1 = "[(POST_api_links \<lparr>protocol = ''http'', host = ''tiny.io''\<rparr>
          (Some ''https://x.com'') (Some ''abc123''), 5),
       (GET_code ''abc123'', 6)]"
  let ?reqs2 = "[(GET_code ''abc123'', 7), (GET_api_links None, 8)]"
  let ?l1 = "\<lparr>link_id = 1, code = ''abc123'', url = ''https://x.com'', clicks = 1,
              last_clicked = Some 6, created_at = 5\<rparr>"
  let ?l2 = "\<lparr>link_id = 1, code = ''abc123'', url = ''https://x.com'', clicks = 2,
              last_clicked = Some 7, created_at = 5\<rparr>"
  have e1: "serve ?U (\<lambda>u. u) ?reqs1 (\<lambda>n. \<lparr>mant = 0, expo = 53\<rparr>) initDb =
      ([\<lparr>status = 201, body = JsonCreated ''abc123'' ''http://tiny.io/abc123'' ''https://x.com'' 0\<rparr>,
        \<lparr>status = 302, body = Location ''https://x.com''\<rparr>],
       (\<lambda>n. \<lparr>mant = 0, expo = 53\<rparr>),
       \<lparr>links = [?l1], links_id_seq = 1,
        queries = [SelectOne ''abc123'', InsertLink ''abc123'' ''https://x.com'' 0 None,
                   SelectUrl ''abc123'', UpdateClicks ''abc123'']\<rparr>)"
    by (simp add: post_api_links_def truthy_def create_custom_def store_link_def
        get_code_def pool_query_def varchar8_def json_def initDb_def code_format_def
        alnum_def selected_def int4_max_def route_get_def lower_def Let_def)
  have e2: "links (snd (snd (serve ?U (\<lambda>u. u) ?reqs2 (\<lambda>n. \<lparr>mant = 0, expo = 53\<rparr>)
       \<lparr>links = [?l1], links_id_seq = 1,
        queries = [SelectOne ''abc123'', InsertLink ''abc123'' ''https://x.com'' 0 None,
                   SelectUrl ''abc123'', UpdateClicks ''abc123'']\<rparr>))) = [?l2]"
    by (simp add: get_code_def get_api_links_def pool_query_def json_def selected_def
        int4_max_def route_get_def lower_def Let_def)
  note T = counters_invariant [where isUrl = ?U and encodeUrl = "\<lambda>u. u" and ?reqs1.0 = ?reqs1 and ?g1.0 = "\<lambda>n. \<lparr>mant = 0, expo = 53\<rparr>"
      and ?reqs2.0 = ?reqs2, unfolded e1 prod.case]
  have m1: "?l1 \<in> set [?l1]" by simp
  have m2: "?l2 \<in> set [?l2]" by simp
  from T have a: "\<forall>l \<in> set [?l1]. last_clicked l = None \<longleftrightarrow> clicks l = 0"
    and b: "\<forall>l \<in> set [?l1]. \<forall>l' \<in> set [?l2]. link_id l' = link_id l \<longrightarrow> clicks l \<le> clicks l'"
    by (simp_all add: case_prod_beta e2)
  from a m1 have a': "last_clicked ?l1 = None \<longleftrightarrow> clicks ?l1 = 0" by (rule bspec)
  from b m1 m2 have b': "link_id ?l2 = link_id ?l1 \<longrightarrow> clicks ?l1 \<le> clicks ?l2" by blast
  show ?thesis
    unfolding e1 snd_conv e2 using a' b' by simp
qed

text \<open>
  \<^bold>\<open>C8\<close>. The handler of \<open>GET /api/links\<close> puts the search term between two \<open>%\<close> and
  hands it to ILIKE as it is. For a term without \<open>%\<close>, \<open>_\<close> and backslash the answer is
  the links whose code or url contains the term, letter case aside, newest first
  (\<open>search_literal_filter\<close>, \<open>search_git_example\<close>,
  \<open>sorted_order_by_created_at_desc\<close>). For the term \<open>%\<close> the answer is every link of
  the table, although no code and no url of the table contains a \<open>%\<close>: the claim asks
  for the links that contain the term, and the handler does not escape the characters
  that LIKE reads as wildcards.
\<close>

theorem search_wildcard_returns_all:
  "fst (get_api_links (Some ''%'') 9
     \<lparr>links = [\<lparr>link_id = 1, code = ''gitlink'', url = ''https://x.com'', clicks = 0,
                last_clicked = None, created_at = 2\<rparr>,
               \<lparr>link_id = 2, code = ''other'', url = ''https://y.com'', clicks = 0,
                last_clicked = None, created_at = 3\<rparr>],
      links_id_seq = 2, queries = []\<rparr>) =
     \<lparr>status = 200,
      body = JsonRows [(''other'', ''https://y.com'', 0, None, 3),
                       (''gitlink'', ''https://x.com'', 0, None, 2)]\<rparr>
   \<and> \<not> sublist ''%'' ''gitlink'' \<and> \<not> sublist ''%'' ''https://x.com''
   \<and> \<not> sublist ''%'' ''other'' \<and> \<not> sublist ''%'' ''https://y.com''"
  by (simp add: get_api_links_def pool_query_def selected_def json_def cols_def
      order_by_created_at_desc_def ilike_def lower_def Let_def pct_def backslash_def
      underscore_def sublist_code)

text \<open>
  \<^bold>\<open>C9\<close>. Delete with a code that is stored answers 200 and removes the rows with that
  code and no other (under the unique constraint: exactly one row); every stats lookup
  for that code on the resulting table is answered 404. Delete with a code that is not
  stored answers 404 and leaves the table as it was (only the log of statements has the
  DELETE more).
\<close>

theorem delete_removes_link:
  "(c \<in> code ` set (links db) \<longrightarrow>
      (case delete_api_links c now db of
         (resp, db') \<Rightarrow>
           resp = \<lparr>status = 200, body = JsonMessage ''Short URL deleted''\<rparr>
           \<and> links db' = filter (\<lambda>l. code l \<noteq> c) (links db)
           \<and> (unique_code db \<longrightarrow>
                (\<exists>l. l \<in> set (links db) \<and> code l = c \<and> links db' = remove1 l (links db)))
           \<and> (\<forall>req now2. fst (get_stats req c now2 db') =
                  \<lparr>status = 404, body = Render404 ''Short URL not found''\<rparr>)))
   \<and> (c \<notin> code ` set (links db) \<longrightarrow>
        delete_api_links c now db =
          (\<lparr>status = 404, body = JsonError ''Short URL not found''\<rparr>,
           db\<lparr>queries := queries db @ [DeleteLink c]\<rparr>))"
proof (intro conjI impI)
  assume present: "c \<in> code ` set (links db)"
  let ?db' = "db\<lparr>links := filter (\<lambda>l. code l \<noteq> c) (links db),
         queries := queries db @ [DeleteLink c]\<rparr>"
  have gone: "c \<notin> code ` set (links ?db')" by auto
  have stats: "\<forall>req now2. fst (get_stats req c now2 ?db') =
                  \<lparr>status = 404, body = Render404 ''Short URL not found''\<rparr>"
    using get_stats_absent [OF gone] by simp
  have one: "unique_code db \<longrightarrow>
      (\<exists>l. l \<in> set (links db) \<and> code l = c \<and> links ?db' = remove1 l (links db))"
  proof
    assume u: "unique_code db"
    from present obtain l where l: "l \<in> set (links db)" "code l = c" by auto
    from u l(1) have "filter (\<lambda>r. code r \<noteq> code l) (links db) = remove1 l (links db)"
      unfolding unique_code_def by (rule filter_remove1_code)
    with l show "\<exists>l. l \<in> set (links db) \<and> code l = c \<and> links ?db' = remove1 l (links db)"
      by auto
  qed
  show "case delete_api_links c now db of
         (resp, db') \<Rightarrow>
           resp = \<lparr>status = 200, body = JsonMessage ''Short URL deleted''\<rparr>
           \<and> links db' = filter (\<lambda>l. code l \<noteq> c) (links db)
           \<and> (unique_code db \<longrightarrow>
                (\<exists>l. l \<in> set (links db) \<and> code l = c \<and> links db' = remove1 l (links db)))
           \<and> (\<forall>req now2. fst (get_stats req c now2 db') =
                  \<lparr>status = 404, body = Render404 ''Short URL not found''\<rparr>)"
    unfolding delete_present [OF present] using stats one by simp
next
  assume "c \<notin> code ` set (links db)"
  then show "delete_api_links c now db =
          (\<lparr>status = 404, body = JsonError ''Short URL not found''\<rparr>,
           db\<lparr>queries := queries db @ [DeleteLink c]\<rparr>)"
    by (rule delete_absent)
qed

theorem delete_removes_link_witness:
  "links (snd (delete_api_links ''abc123'' 9
     \<lparr>links = [\<lparr>link_id = 1, code = ''abc123'', url = ''https://x.com'', clicks = 0,
                last_clicked = None, created_at = 2\<rparr>,
               \<lparr>link_id = 2, code = ''gitlink'', url = ''https://y.com'', clicks = 4,
                last_clicked = Some 7, created_at = 3\<rparr>],
      links_id_seq = 2, queries = []\<rparr>)) =
     [\<lparr>link_id = 2, code = ''gitlink'', url = ''https://y.com'', clicks = 4,
       last_clicked = Some 7, created_at = 3\<rparr>]
   \<and> fst (get_stats \<lparr>protocol = ''http'', host = ''tiny.io''\<rparr> ''abc123'' 10
       (snd (delete_api_links ''abc123'' 9
     \<lparr>links = [\<lparr>link_id = 1, code = ''abc123'', url = ''https://x.com'', clicks = 0,
                last_clicked = None, created_at = 2\<rparr>,
               \<lparr>link_id = 2, code = ''gitlink'', url = ''https://y.com'', clicks = 4,
                last_clicked = Some 7, created_at = 3\<rparr>],
      links_id_seq = 2, queries = []\<rparr>))) =
     \<lparr>status = 404, body = Render404 ''Short URL not found''\<rparr>
   \<and> fst (delete_api_links ''zzzzzz'' 9
     \<lparr>links = [\<lparr>link_id = 1, code = ''abc123'', url = ''https://x.com'', clicks = 0,
                last_clicked = None, created_at = 2\<rparr>,
               \<lparr>link_id = 2, code = ''gitlink'', url = ''https://y.com'', clicks = 4,
                last_clicked = Some 7, created_at = 3\<rparr>],
      links_id_seq = 2, queries = []\<rparr>) =
     \<lparr>status = 404, body = JsonError ''Short URL not found''\<rparr>"
proof -
  let ?db = "\<lparr>links = [\<lparr>link_id = 1, code = ''abc123'', url = ''https://x.com'', clicks = 0,
                last_clicked = None, created_at = 2\<rparr>,
               \<lparr>link_id = 2, code = ''gitlink'', url = ''https://y.com'', clicks = 4,
                last_clicked = Some 7, created_at = 3\<rparr>],
      links_id_seq = 2, queries = []\<rparr>"
  have p: "''abc123'' \<in> code ` set (links ?db)" by simp
  have q: "''zzzzzz'' \<notin> code ` set (links ?db)" by simp
  note T = delete_removes_link [of "''abc123''" ?db 9, THEN conjunct1, THEN mp, OF p]
  note T' = T [unfolded case_prod_beta]
  note a = T' [THEN conjunct2, THEN conjunct1]
  have "\<forall>req now2. fst (get_stats req ''abc123'' now2 (snd (delete_api_links ''abc123'' 9 ?db))) =
                  \<lparr>status = 404, body = Render404 ''Short URL not found''\<rparr>"
    by (rule T' [THEN conjunct2, THEN conjunct2, THEN conjunct2])
  then have b: "fst (get_stats \<lparr>protocol = ''http'', host = ''tiny.io''\<rparr> ''abc123'' 10
       (snd (delete_api_links ''abc123'' 9 ?db))) =
     \<lparr>status = 404, body = Render404 ''Short URL not found''\<rparr>"
    by blast
  note c = delete_removes_link [of "''zzzzzz''" ?db 9, THEN conjunct2, THEN mp, OF q]
  show ?thesis
    unfolding a b c by simp
qed

text \<open>
  \<^bold>\<open>C10\<close>. A create request with a well-formed url whose code field is the empty string
  is handled exactly as the same request without a code field: it takes the branch of the
  generated codes, and its answer is never 400.
\<close>

theorem empty_code_takes_random_path:
  assumes "u \<noteq> []" and "isUrl u"
  shows "post_api_links isUrl req (Some u) (Some []) now g db =
           post_api_links isUrl req (Some u) None now g db
       \<and> post_api_links isUrl req (Some u) (Some []) now g db = create_random req u now g db
       \<and> status (fst (post_api_links isUrl req (Some u) (Some []) now g db)) \<noteq> 400"
proof -
  have a: "post_api_links isUrl req (Some u) (Some []) now g db = create_random req u now g db"
    using assms by (simp add: post_random truthy_def)
  have b: "post_api_links isUrl req (Some u) None now g db = create_random req u now g db"
    using assms by (simp add: post_random truthy_def)
  have c: "status (fst (create_random req u now g db)) \<noteq> 400"
  proof (cases "find (\<lambda>c. c \<notin> code ` set (links db)) (candidates g 10)")
    case None
    then show ?thesis by (simp add: create_random_eq)
  next
    case (Some c)
    let ?db = "db\<lparr>queries := queries db
        @ map SelectOne (takeWhile (\<lambda>c. c \<in> code ` set (links db)) (candidates g 10))
        @ [SelectOne c]\<rparr>"
    from store_link_status [of req u c now ?db] Some show ?thesis
      by (auto simp: create_random_eq)
  qed
  show ?thesis using a b c by simp
qed

theorem empty_code_takes_random_path_witness:
  "status (fst (post_api_links (\<lambda>u. u = ''https://x.com'') \<lparr>protocol = ''http'', host = ''tiny.io''\<rparr>
          (Some ''https://x.com'') (Some []) 9 (\<lambda>n. \<lparr>mant = 0, expo = 53\<rparr>) initDb)) \<noteq> 400
   \<and> post_api_links (\<lambda>u. u = ''https://x.com'') \<lparr>protocol = ''http'', host = ''tiny.io''\<rparr>
          (Some ''https://x.com'') (Some []) 9 (\<lambda>n. \<lparr>mant = 0, expo = 53\<rparr>) initDb =
     post_api_links (\<lambda>u. u = ''https://x.com'') \<lparr>protocol = ''http'', host = ''tiny.io''\<rparr>
          (Some ''https://x.com'') None 9 (\<lambda>n. \<lparr>mant = 0, expo = 53\<rparr>) initDb"
proof -
  have h1: "''https://x.com'' \<noteq> []" by simp
  have h2: "(\<lambda>u. u = ''https://x.com'') ''https://x.com''" by simp
  note T = empty_code_takes_random_path [where isUrl = "\<lambda>u. u = ''https://x.com''"
      and u = "''https://x.com''" and req = "\<lparr>protocol = ''http'', host = ''tiny.io''\<rparr>"
      and now = 9 and g = "\<lambda>n. \<lparr>mant = 0, expo = 53\<rparr>" and db = initDb, OF h1 h2]
  from T [THEN conjunct2, THEN conjunct2] T [THEN conjunct1]
  show ?thesis by (rule conjI)
qed

end
